theory Spec2Isabelle
  imports Complex_Main "HOL-Library.Char_ord" "HOL-Library.List_Lexorder"
    "HOL-Library.Product_Lexorder"
begin

section \<open>The observation table of the CO2 dashboard notebook\<close>

text \<open>
  The notebook \<^verbatim>\<open>co2_data_visualization_project.ipynb\<close> loads one pandas data frame,
  cleans it, and derives three views from it. This theory embeds the data frame
  operations the notebook calls, in the order it calls them.

  A cell of a data frame is a missing-value marker (pandas' \<^verbatim>\<open>NaN\<close>, which is
  also the float \<^verbatim>\<open>nan\<close>), a finite number, one of the two float infinities, which
  \<^verbatim>\<open>pd.read_csv\<close> reads from the text \<^verbatim>\<open>inf\<close>, or a string. Finite numbers are exact
  rationals: rounding, overflow of a finite result to an infinity and the sign of zero
  are outside this model, and so is the difference between an integer and a float
  column: the notebook compares and groups by its integer column, \<^verbatim>\<open>year\<close>, and does
  no arithmetic on it.
\<close>

datatype cell = is_NaN: NaN | is_Num: Num rat | PosInf | NegInf | is_Str: Str string

definition is_Inf :: "cell \<Rightarrow> bool" where
  "is_Inf c \<longleftrightarrow> c = PosInf \<or> c = NegInf"

definition is_number :: "cell \<Rightarrow> bool" where
  "is_number c \<longleftrightarrow> is_Num c \<or> is_Inf c"

datatype error = KeyError string | AttributeError string | TypeError | ValueError

text \<open>
  A frame holds its column labels and its rows; every row has one cell per column.
  pandas keeps this shape by construction, here it is the predicate \<open>wf_frame\<close>.
\<close>

record frame =
  columns :: "string list"
  rows :: "cell list list"

definition wf_frame :: "frame \<Rightarrow> bool" where
  "wf_frame df \<longleftrightarrow>
     distinct (columns df) \<and> (\<forall>r \<in> set (rows df). length r = length (columns df))"

subsection \<open>Raising and propagating exceptions\<close>

fun ebind :: "error + 'a \<Rightarrow> ('a \<Rightarrow> error + 'b) \<Rightarrow> error + 'b" where
  "ebind (Inl e) f = Inl e"
| "ebind (Inr x) f = f x"

text \<open>An element-wise operation over a column stops at the first element that raises.\<close>

fun each :: "('a \<Rightarrow> error + 'b) \<Rightarrow> 'a list \<Rightarrow> error + 'b list" where
  "each f [] = Inr []"
| "each f (x # xs) = ebind (f x) (\<lambda>y. ebind (each f xs) (\<lambda>ys. Inr (y # ys)))"

subsection \<open>Column access\<close>

fun index_of :: "'a \<Rightarrow> 'a list \<Rightarrow> nat option" where
  "index_of x [] = None"
| "index_of x (y # ys) = (if x = y then Some 0 else map_option Suc (index_of x ys))"

text \<open>The cell of row \<open>r\<close> under the label \<open>name\<close>, for a row of a frame with labels \<open>cols\<close>.\<close>

definition cell_at :: "string list \<Rightarrow> cell list \<Rightarrow> string \<Rightarrow> cell option" where
  "cell_at cols r name = map_option (\<lambda>i. r ! i) (index_of name cols)"

text \<open>\<^verbatim>\<open>df['name']\<close>: the column as a list of cells, or \<^verbatim>\<open>KeyError\<close>.\<close>

definition getitem :: "frame \<Rightarrow> string \<Rightarrow> error + cell list" where
  "getitem df name =
     (case index_of name (columns df) of
        None \<Rightarrow> Inl (KeyError name)
      | Some i \<Rightarrow> Inr (map (\<lambda>r. r ! i) (rows df)))"

text \<open>\<^verbatim>\<open>df.name\<close>: the same column, with \<^verbatim>\<open>AttributeError\<close> when there is none.\<close>

definition getattr :: "frame \<Rightarrow> string \<Rightarrow> error + cell list" where
  "getattr df name =
     (case index_of name (columns df) of
        None \<Rightarrow> Inl (AttributeError name)
      | Some i \<Rightarrow> Inr (map (\<lambda>r. r ! i) (rows df)))"

text \<open>
  \<^verbatim>\<open>df['name'] = vals\<close>: an existing column is overwritten in place, a new label is
  appended as the last column. The notebook assigns a column computed from \<open>df\<close> itself,
  so \<open>vals\<close> has one value per row.
\<close>

definition setitem :: "frame \<Rightarrow> string \<Rightarrow> cell list \<Rightarrow> frame" where
  "setitem df name vals =
     (case index_of name (columns df) of
        None \<Rightarrow> \<lparr>columns = columns df @ [name],
                 rows = map (\<lambda>(r, v). r @ [v]) (zip (rows df) vals)\<rparr>
      | Some i \<Rightarrow> \<lparr>columns = columns df,
                   rows = map (\<lambda>(r, v). r[i := v]) (zip (rows df) vals)\<rparr>)"

subsection \<open>The cleaning step\<close>

text \<open>
  \<^verbatim>\<open>
  df = df.fillna(0)
  df['gdp_per_capita'] = np.where(df['population']!=0, df['gdp']/df['population'],0)
  \<close>
\<close>

fun fill :: "rat \<Rightarrow> cell \<Rightarrow> cell" where
  "fill v NaN = Num v"
| "fill v c = c"

definition fillna :: "rat \<Rightarrow> frame \<Rightarrow> frame" where
  "fillna v df = \<lparr>columns = columns df, rows = map (map (fill v)) (rows df)\<rparr>"

text \<open>\<^verbatim>\<open>column != x\<close>, element-wise; a string or a missing value differs from any number.\<close>

definition ne_scalar :: "cell list \<Rightarrow> rat \<Rightarrow> bool list" where
  "ne_scalar xs x = map (\<lambda>c. c \<noteq> Num x) xs"

text \<open>
  \<^verbatim>\<open>a / b\<close> on two cells, as float division. A string operand raises
  \<^verbatim>\<open>TypeError\<close>; a missing operand gives a missing result. Dividing by zero raises
  nothing in numpy: zero by zero is \<^verbatim>\<open>nan\<close>, anything else by zero is an infinity
  (the zero taken as positive). A finite number by an infinity is zero, an infinity by
  a finite number is an infinity, and an infinity by an infinity is \<^verbatim>\<open>nan\<close>.
\<close>

fun negate :: "cell \<Rightarrow> cell" where
  "negate PosInf = NegInf"
| "negate NegInf = PosInf"
| "negate (Num a) = Num (- a)"
| "negate c = c"

fun truediv :: "cell \<Rightarrow> cell \<Rightarrow> error + cell" where
  "truediv (Str s) b = Inl TypeError"
| "truediv a (Str s) = Inl TypeError"
| "truediv NaN b = Inr NaN"
| "truediv a NaN = Inr NaN"
| "truediv (Num a) (Num b) =
     Inr (if b \<noteq> 0 then Num (a / b)
          else if a = 0 then NaN else if 0 < a then PosInf else NegInf)"
| "truediv (Num a) b = Inr (Num 0)"
| "truediv a (Num b) = Inr (if 0 \<le> b then a else negate a)"
| "truediv a b = Inr NaN"

definition truediv_cols :: "cell list \<Rightarrow> cell list \<Rightarrow> error + cell list" where
  "truediv_cols xs ys = each (\<lambda>(a, b). truediv a b) (zip xs ys)"

text \<open>\<^verbatim>\<open>np.where(cond, xs, y)\<close> with a scalar \<open>y\<close>: both arguments are already computed.\<close>

definition np_where :: "bool list \<Rightarrow> cell list \<Rightarrow> cell \<Rightarrow> cell list" where
  "np_where cond xs y = map (\<lambda>(c, x). if c then x else y) (zip cond xs)"

definition clean :: "frame \<Rightarrow> error + frame" where
  "clean raw =
     (let df = fillna 0 raw in
      ebind (getitem df ''population'') (\<lambda>pop.
      ebind (getitem df ''gdp'') (\<lambda>gdp.
      ebind (getitem df ''population'') (\<lambda>pop'.
      ebind (truediv_cols gdp pop') (\<lambda>q.
      Inr (setitem df ''gdp_per_capita'' (np_where (ne_scalar pop 0) q (Num 0))))))))"

text \<open>
  The input schema the notebook relies on: the column exists and is a float column,
  each of its cells a finite number, an infinity or the missing-value marker.
\<close>

definition float_column :: "frame \<Rightarrow> string \<Rightarrow> bool" where
  "float_column df name \<longleftrightarrow>
     (case index_of name (columns df) of
        None \<Rightarrow> False
      | Some i \<Rightarrow> list_all (\<lambda>r. \<not> is_Str (r ! i)) (rows df))"

subsection \<open>Widgets and constants of the views\<close>

text \<open>
  \<^verbatim>\<open>
  year_slider = pn.widgets.IntSlider(name='Year Slider', start=1750, end=2020, step=5, value=1850)
  yaxis_co2 = pn.widgets.RadioButtonGroup(options = ['co2', 'co2_per_capita',], ...)
  yaxis_co2_source = pn.widgets.RadioButtonGroup(options = ['coal_co2', 'oil_co2', 'gas_co2'], ...)
  \<close>
\<close>

definition yaxis_co2_options :: "string list" where
  "yaxis_co2_options = [''co2'', ''co2_per_capita'']"

definition yaxis_co2_source_options :: "string list" where
  "yaxis_co2_source_options = [''coal_co2'', ''oil_co2'', ''gas_co2'']"

definition continents :: "string list" where
  "continents = [''World'', ''Asia'', ''Oceania'', ''Europe'', ''Africa'', ''North America'',
     ''South America'', ''Antarctica'']"

definition continents_excl_world :: "string list" where
  "continents_excl_world = [''Asia'', ''Oceania'', ''Europe'', ''Africa'', ''North America'',
     ''South America'', ''Antarctica'']"

subsection \<open>Boolean masks\<close>

text \<open>
  \<^verbatim>\<open>column <= v\<close>: a missing value compares false, a string against a number raises.
\<close>

fun le_cell :: "cell \<Rightarrow> rat \<Rightarrow> error + bool" where
  "le_cell (Num y) v = Inr (y \<le> v)"
| "le_cell NegInf v = Inr True"
| "le_cell PosInf v = Inr False"
| "le_cell NaN v = Inr False"
| "le_cell (Str s) v = Inl TypeError"

definition le_scalar :: "cell list \<Rightarrow> rat \<Rightarrow> error + bool list" where
  "le_scalar xs v = each (\<lambda>c. le_cell c v) xs"

text \<open>\<^verbatim>\<open>column == v\<close>: never raises; only the number \<open>v\<close> itself compares true.\<close>

definition eq_scalar :: "cell list \<Rightarrow> rat \<Rightarrow> bool list" where
  "eq_scalar xs v = map (\<lambda>c. c = Num v) xs"

definition isin :: "cell list \<Rightarrow> string list \<Rightarrow> bool list" where
  "isin xs names = map (\<lambda>c. c \<in> set (map Str names)) xs"

definition and_mask :: "bool list \<Rightarrow> bool list \<Rightarrow> bool list" where
  "and_mask a b = map (\<lambda>(x, y). x \<and> y) (zip a b)"

definition not_mask :: "bool list \<Rightarrow> bool list" where
  "not_mask a = map Not a"

text \<open>\<^verbatim>\<open>df[m]\<close> with a boolean column \<open>m\<close>: a new frame of the rows where \<open>m\<close> holds.\<close>

definition getitem_mask :: "frame \<Rightarrow> bool list \<Rightarrow> frame" where
  "getitem_mask df m = \<lparr>columns = columns df, rows = map fst (filter snd (zip (rows df) m))\<rparr>"

subsection \<open>Grouping, aggregating, sorting\<close>

fun nums :: "cell list \<Rightarrow> rat list" where
  "nums [] = []"
| "nums (Num x # cs) = x # nums cs"
| "nums (c # cs) = nums cs"

fun strs :: "cell list \<Rightarrow> string list" where
  "strs [] = []"
| "strs (Str s # cs) = s # strs cs"
| "strs (c # cs) = strs cs"

text \<open>
  The float sum of the numbers among the cells, missing values skipped: both infinities
  together give \<^verbatim>\<open>nan\<close>, one of them alone gives itself, and the sum of nothing is
  zero.
\<close>

definition float_sum :: "cell list \<Rightarrow> cell" where
  "float_sum xs =
     (if PosInf \<in> set xs then (if NegInf \<in> set xs then NaN else PosInf)
      else if NegInf \<in> set xs then NegInf
      else Num (sum_list (nums xs)))"

text \<open>
  \<^verbatim>\<open>.mean()\<close> of one group: missing values are skipped, the mean of nothing is missing,
  a string raises.
\<close>

definition mean_agg :: "cell list \<Rightarrow> error + cell" where
  "mean_agg xs =
     (if list_ex is_Str xs then Inl TypeError
      else let ys = filter (\<lambda>c. \<not> is_NaN c) xs
           in Inr (if ys = [] then NaN
                   else case float_sum ys of
                          Num s \<Rightarrow> Num (s / of_nat (length ys))
                        | c \<Rightarrow> c))"

text \<open>
  \<^verbatim>\<open>.sum()\<close> of one group: the float sum. A group of strings is concatenated;
  numbers mixed with strings raise.
\<close>

definition sum_agg :: "cell list \<Rightarrow> error + cell" where
  "sum_agg xs =
     (if \<not> list_ex is_Str xs then Inr (float_sum xs)
      else if \<not> list_ex is_number xs then Inr (Str (concat (strs xs)))
      else Inl TypeError)"

text \<open>
  The order pandas sorts cells in: numbers by value, before strings by code point (a
  string is its UTF-8 bytes here, which order the same way), missing values last.
\<close>

fun cell_rank :: "cell \<Rightarrow> nat \<times> rat \<times> string" where
  "cell_rank NegInf = (0, 0, [])"
| "cell_rank (Num x) = (1, x, [])"
| "cell_rank PosInf = (2, 0, [])"
| "cell_rank (Str s) = (3, 0, s)"
| "cell_rank NaN = (4, 0, [])"

definition index_or_raise :: "string list \<Rightarrow> string \<Rightarrow> error + nat" where
  "index_or_raise cols name =
     (case index_of name cols of None \<Rightarrow> Inl (KeyError name) | Some i \<Rightarrow> Inr i)"

text \<open>
  \<^verbatim>\<open>df.groupby(keys)[c].agg().to_frame().reset_index()\<close>. Rows with a missing key are
  dropped (\<^verbatim>\<open>dropna=True\<close>), there is one group for each distinct key that occurs, the
  groups come in the order of their keys (\<^verbatim>\<open>sort=True\<close>), and the result has the key
  columns followed by the aggregated column. \<^verbatim>\<open>reset_index\<close> raises when the
  aggregated column has the label of a key.
\<close>

definition groupby_agg ::
  "(cell list \<Rightarrow> error + cell) \<Rightarrow> string list \<Rightarrow> string \<Rightarrow> frame \<Rightarrow> error + frame" where
  "groupby_agg agg keys c df =
     ebind (each (index_or_raise (columns df)) keys) (\<lambda>ks.
     ebind (index_or_raise (columns df) c) (\<lambda>j.
       let key = (\<lambda>r. map (\<lambda>i. r ! i) ks);
           live = filter (\<lambda>r. NaN \<notin> set (key r)) (rows df);
           gks = sort_key (map cell_rank) (remdups (map key live))
       in ebind (each (\<lambda>k. ebind (agg (map (\<lambda>r. r ! j) (filter (\<lambda>r. key r = k) live)))
                              (\<lambda>v. Inr (k @ [v]))) gks) (\<lambda>rs.
          if c \<in> set keys then Inl ValueError
          else Inr \<lparr>columns = keys @ [c], rows = rs\<rparr>)))"

text \<open>
  \<^verbatim>\<open>.sort_values(by=name).reset_index(drop=True)\<close>. A column that mixes numbers and
  strings cannot be sorted. numpy's default sort does not promise an order among equal
  keys; the model keeps their order, and no theorem below depends on it. The row index
  that \<^verbatim>\<open>reset_index(drop=True)\<close> renumbers is not part of a frame here.
\<close>

definition sort_values :: "string \<Rightarrow> frame \<Rightarrow> error + frame" where
  "sort_values name df =
     ebind (index_or_raise (columns df) name) (\<lambda>i.
       let col = map (\<lambda>r. r ! i) (rows df)
       in if list_ex is_number col \<and> list_ex is_Str col then Inl TypeError
          else Inr \<lparr>columns = columns df,
                    rows = sort_key (\<lambda>r. cell_rank (r ! i)) (rows df)\<rparr>)"

subsection \<open>The three views\<close>

text \<open>
  Each view is an expression over the interactive frame \<^verbatim>\<open>idf = df.interactive()\<close>
  that is evaluated again with the current widget values. The functions below evaluate
  a view for given widget values.
  \<^verbatim>\<open>
  co2_pipeline = (
      idf[(idf.year <= year_slider) & (idf.country.isin(continents))]
      .groupby(['country', 'year'])[yaxis_co2].mean()
      .to_frame().reset_index().sort_values(by='year').reset_index(drop=True))
  \<close>
\<close>

definition co2_pipeline :: "frame \<Rightarrow> int \<Rightarrow> string \<Rightarrow> error + frame" where
  "co2_pipeline df year_slider yaxis_co2 =
     ebind (getattr df ''year'') (\<lambda>ys.
     ebind (le_scalar ys (of_int year_slider)) (\<lambda>m1.
     ebind (getattr df ''country'') (\<lambda>cs.
     ebind (groupby_agg mean_agg [''country'', ''year''] yaxis_co2
              (getitem_mask df (and_mask m1 (isin cs continents)))) (\<lambda>g.
     sort_values ''year'' g))))"

text \<open>
  \<^verbatim>\<open>
  co2_vs_gdp_scatterplot_pipeline = (
      idf[(idf.year == year_slider) & (~ (idf.country.isin(continents)))]
      .groupby(['country', 'year', 'gdp_per_capita'])['co2'].mean()
      .to_frame().reset_index().sort_values(by='year').reset_index(drop=True))
  \<close>
\<close>

definition co2_vs_gdp_scatterplot_pipeline :: "frame \<Rightarrow> int \<Rightarrow> error + frame" where
  "co2_vs_gdp_scatterplot_pipeline df year_slider =
     ebind (getattr df ''year'') (\<lambda>ys.
     ebind (getattr df ''country'') (\<lambda>cs.
     ebind (groupby_agg mean_agg [''country'', ''year'', ''gdp_per_capita''] ''co2''
              (getitem_mask df
                 (and_mask (eq_scalar ys (of_int year_slider))
                    (not_mask (isin cs continents))))) (\<lambda>g.
     sort_values ''year'' g)))"

text \<open>
  \<^verbatim>\<open>
  co2_source_bar_pipeline = (
      idf[(idf.year == year_slider) & (idf.country.isin(continents_excl_world))]
      .groupby(['year', 'country'])[yaxis_co2_source].sum()
      .to_frame().reset_index().sort_values(by='year').reset_index(drop=True))
  \<close>
\<close>

definition co2_source_bar_pipeline :: "frame \<Rightarrow> int \<Rightarrow> string \<Rightarrow> error + frame" where
  "co2_source_bar_pipeline df year_slider yaxis_co2_source =
     ebind (getattr df ''year'') (\<lambda>ys.
     ebind (getattr df ''country'') (\<lambda>cs.
     ebind (groupby_agg sum_agg [''year'', ''country''] yaxis_co2_source
              (getitem_mask df
                 (and_mask (eq_scalar ys (of_int year_slider))
                    (isin cs continents_excl_world)))) (\<lambda>g.
     sort_values ''year'' g)))"

subsection \<open>Objects\<close>

text \<open>
  Python variables hold references to objects. The heap is the list of the frames
  created so far, a reference is a position in it, and a statement takes the heap and
  returns its result, or the exception it raised, with the heap it leaves.
\<close>

type_synonym ref = nat

type_synonym heap = "frame list"

type_synonym 'a prog = "heap \<Rightarrow> (error + 'a) \<times> heap"

definition ret :: "'a \<Rightarrow> 'a prog" where
  "ret x h = (Inr x, h)"

definition lift :: "error + 'a \<Rightarrow> 'a prog" where
  "lift m h = (m, h)"

definition hbind :: "'a prog \<Rightarrow> ('a \<Rightarrow> 'b prog) \<Rightarrow> 'b prog" where
  "hbind p f h = (case p h of (Inl e, h') \<Rightarrow> (Inl e, h') | (Inr x, h') \<Rightarrow> f x h')"

definition deref :: "ref \<Rightarrow> frame prog" where
  "deref a h = (Inr (h ! a), h)"

definition new :: "frame \<Rightarrow> ref prog" where
  "new f h = (Inr (length h), h @ [f])"

text \<open>
  The pandas calls of the notebook, on references. Reading a column creates no frame.
  \<^verbatim>\<open>fillna\<close>, indexing by a mask, the grouping chain, \<^verbatim>\<open>sort_values\<close> and
  \<^verbatim>\<open>reset_index\<close> (none of them called with \<^verbatim>\<open>inplace=True\<close>) each return a new
  frame; the assignment \<^verbatim>\<open>df[name] = vals\<close> writes into the frame it is given.
\<close>

definition py_getitem :: "ref \<Rightarrow> string \<Rightarrow> (cell list) prog" where
  "py_getitem a name = hbind (deref a) (\<lambda>f. lift (getitem f name))"

definition py_getattr :: "ref \<Rightarrow> string \<Rightarrow> (cell list) prog" where
  "py_getattr a name = hbind (deref a) (\<lambda>f. lift (getattr f name))"

definition py_fillna :: "rat \<Rightarrow> ref \<Rightarrow> ref prog" where
  "py_fillna v a = hbind (deref a) (\<lambda>f. new (fillna v f))"

definition py_setitem :: "ref \<Rightarrow> string \<Rightarrow> cell list \<Rightarrow> unit prog" where
  "py_setitem a name vals h = (Inr (), h[a := setitem (h ! a) name vals])"

definition py_getitem_mask :: "ref \<Rightarrow> bool list \<Rightarrow> ref prog" where
  "py_getitem_mask a m = hbind (deref a) (\<lambda>f. new (getitem_mask f m))"

definition py_groupby_agg ::
  "(cell list \<Rightarrow> error + cell) \<Rightarrow> string list \<Rightarrow> string \<Rightarrow> ref \<Rightarrow> ref prog" where
  "py_groupby_agg agg keys c a =
     hbind (deref a) (\<lambda>f. hbind (lift (groupby_agg agg keys c f)) new)"

definition py_sort_values :: "string \<Rightarrow> ref \<Rightarrow> ref prog" where
  "py_sort_values name a = hbind (deref a) (\<lambda>f. hbind (lift (sort_values name f)) new)"

definition py_reset_index_drop :: "ref \<Rightarrow> ref prog" where
  "py_reset_index_drop a = hbind (deref a) new"

text \<open>
  The cleaning cell: \<^verbatim>\<open>df\<close> is bound to the frame that \<^verbatim>\<open>fillna\<close> returns, and the
  assignment of the derived column changes that frame in place.
\<close>

definition clean_cell :: "ref \<Rightarrow> ref prog" where
  "clean_cell raw =
     hbind (py_fillna 0 raw) (\<lambda>df.
     hbind (py_getitem df ''population'') (\<lambda>pop.
     hbind (py_getitem df ''gdp'') (\<lambda>gdp.
     hbind (py_getitem df ''population'') (\<lambda>pop'.
     hbind (lift (truediv_cols gdp pop')) (\<lambda>q.
     hbind (py_setitem df ''gdp_per_capita'' (np_where (ne_scalar pop 0) q (Num 0))) (\<lambda>u.
     ret df))))))"

text \<open>The three views, evaluated on the frame that \<^verbatim>\<open>idf\<close> wraps.\<close>

definition co2_pipeline_eval :: "ref \<Rightarrow> int \<Rightarrow> string \<Rightarrow> ref prog" where
  "co2_pipeline_eval idf year_slider yaxis_co2 =
     hbind (py_getattr idf ''year'') (\<lambda>ys.
     hbind (lift (le_scalar ys (of_int year_slider))) (\<lambda>m1.
     hbind (py_getattr idf ''country'') (\<lambda>cs.
     hbind (py_getitem_mask idf (and_mask m1 (isin cs continents))) (\<lambda>a1.
     hbind (py_groupby_agg mean_agg [''country'', ''year''] yaxis_co2 a1) (\<lambda>a2.
     hbind (py_sort_values ''year'' a2) (\<lambda>a3.
     py_reset_index_drop a3))))))"

definition co2_vs_gdp_scatterplot_pipeline_eval :: "ref \<Rightarrow> int \<Rightarrow> ref prog" where
  "co2_vs_gdp_scatterplot_pipeline_eval idf year_slider =
     hbind (py_getattr idf ''year'') (\<lambda>ys.
     hbind (py_getattr idf ''country'') (\<lambda>cs.
     hbind (py_getitem_mask idf
              (and_mask (eq_scalar ys (of_int year_slider))
                 (not_mask (isin cs continents)))) (\<lambda>a1.
     hbind (py_groupby_agg mean_agg [''country'', ''year'', ''gdp_per_capita''] ''co2'' a1)
       (\<lambda>a2.
     hbind (py_sort_values ''year'' a2) (\<lambda>a3.
     py_reset_index_drop a3)))))"

definition co2_source_bar_pipeline_eval :: "ref \<Rightarrow> int \<Rightarrow> string \<Rightarrow> ref prog" where
  "co2_source_bar_pipeline_eval idf year_slider yaxis_co2_source =
     hbind (py_getattr idf ''year'') (\<lambda>ys.
     hbind (py_getattr idf ''country'') (\<lambda>cs.
     hbind (py_getitem_mask idf
              (and_mask (eq_scalar ys (of_int year_slider))
                 (isin cs continents_excl_world))) (\<lambda>a1.
     hbind (py_groupby_agg sum_agg [''year'', ''country''] yaxis_co2_source a1) (\<lambda>a2.
     hbind (py_sort_values ''year'' a2) (\<lambda>a3.
     py_reset_index_drop a3)))))"

text \<open>One heap continues another when every object of the first is still there, unchanged.\<close>

definition continues :: "heap \<Rightarrow> heap \<Rightarrow> bool" where
  "continues h h' \<longleftrightarrow> take (length h) h' = h"

subsection \<open>The dashboard\<close>

text \<open>
  The served page holds the heap, the reference to the cleaned table, the current
  values of the three widgets and the three views as last evaluated, if they have been.
  A widget change stores the new value and evaluates the views again.
\<close>

record dashboard =
  objs :: heap
  table :: ref
  year_slider :: int
  yaxis_co2 :: string
  yaxis_co2_source :: string
  co2_view :: "(error + ref) option"
  scatter_view :: "(error + ref) option"
  bar_view :: "(error + ref) option"

datatype event = Year_slider int | Yaxis_co2 string | Yaxis_co2_source string

definition evaluate :: "dashboard \<Rightarrow> dashboard" where
  "evaluate s =
     (let (v1, h1) = co2_pipeline_eval (table s) (year_slider s) (yaxis_co2 s) (objs s);
          (v2, h2) = co2_vs_gdp_scatterplot_pipeline_eval (table s) (year_slider s) h1;
          (v3, h3) = co2_source_bar_pipeline_eval (table s) (year_slider s)
                       (yaxis_co2_source s) h2
      in s\<lparr>objs := h3, co2_view := Some v1, scatter_view := Some v2, bar_view := Some v3\<rparr>)"

fun on_event :: "event \<Rightarrow> dashboard \<Rightarrow> dashboard" where
  "on_event (Year_slider v) s = evaluate (s\<lparr>year_slider := v\<rparr>)"
| "on_event (Yaxis_co2 c) s = evaluate (s\<lparr>yaxis_co2 := c\<rparr>)"
| "on_event (Yaxis_co2_source c) s = evaluate (s\<lparr>yaxis_co2_source := c\<rparr>)"

fun run :: "event list \<Rightarrow> dashboard \<Rightarrow> dashboard" where
  "run [] s = s"
| "run (e # es) s = run es (on_event e s)"

subsection \<open>Properties of tables, as the specification words them\<close>

text \<open>
  \<^verbatim>\<open>x >= 0\<close> on a cell: true of a non-negative number and of plus infinity, false of
  \<^verbatim>\<open>nan\<close>.
\<close>

fun cell_nonneg :: "cell \<Rightarrow> bool" where
  "cell_nonneg (Num x) = (0 \<le> x)"
| "cell_nonneg PosInf = True"
| "cell_nonneg c = False"

text \<open>Every non-missing value of the column is non-negative.\<close>

definition nonneg_column :: "frame \<Rightarrow> string \<Rightarrow> bool" where
  "nonneg_column df name \<longleftrightarrow>
     (\<forall>r \<in> set (rows df).
        case cell_at (columns df) r name of
          None \<Rightarrow> True | Some NaN \<Rightarrow> True | Some c \<Rightarrow> cell_nonneg c)"

text \<open>
  The rows of \<open>df\<close> whose year is \<open>y\<close> and whose country is \<open>k\<close>, and the sum of
  column \<open>c\<close> over given rows: the sum of its finite numbers when it holds no infinity,
  the infinity when it holds one of the two, and \<^verbatim>\<open>nan\<close> when it holds both.
\<close>

definition matching_rows :: "frame \<Rightarrow> rat \<Rightarrow> string \<Rightarrow> cell list list" where
  "matching_rows df y k =
     filter (\<lambda>r. cell_at (columns df) r ''year'' = Some (Num y)
               \<and> cell_at (columns df) r ''country'' = Some (Str k)) (rows df)"

definition column_sum :: "frame \<Rightarrow> string \<Rightarrow> cell list list \<Rightarrow> cell" where
  "column_sum df c rs =
     (let xs = map (\<lambda>r. case cell_at (columns df) r c of Some x \<Rightarrow> x | None \<Rightarrow> NaN) rs
      in if PosInf \<in> set xs \<and> NegInf \<in> set xs then NaN
         else if PosInf \<in> set xs then PosInf
         else if NegInf \<in> set xs then NegInf
         else Num (sum_list (nums xs)))"

text \<open>A reading of "aggregate of three sub-quantities": the view has all three columns.\<close>

definition has_all_sources :: "frame \<Rightarrow> bool" where
  "has_all_sources v \<longleftrightarrow> list_all (\<lambda>c. c \<in> set (columns v)) yaxis_co2_source_options"

subsection \<open>A small table\<close>

text \<open>
  Five rows in the shape of the data set: two aggregate regions, one of them twice in
  the same year, one country, missing cells, and a row with population zero.
\<close>

definition ex_raw :: frame where
  "ex_raw = \<lparr>columns = [''country'', ''year'', ''iso_code'', ''population'', ''gdp'', ''co2'',
       ''co2_per_capita'', ''coal_co2'', ''oil_co2'', ''gas_co2''],
     rows = [
       [Str ''World'', Num 1850, NaN, Num 100, Num 1000, Num 50, Num (1/2), Num 30, Num 15, Num 5],
       [Str ''Asia'', Num 1850, NaN, Num 0, Num 1000, Num 20, NaN, Num 12, Num 6, Num 2],
       [Str ''Asia'', Num 1850, NaN, Num 40, NaN, Num 10, Num (1/4), Num 4, NaN, Num 1],
       [Str ''Europe'', Num 1900, NaN, Num 50, Num 600, Num 30, Num (3/5), Num 20, Num 8, Num 2],
       [Str ''France'', Num 1850, Str ''FRA'', Num 10, Num 300, Num 7, Num (7/10), Num 5, Num 2, Num 0]]\<rparr>"

definition ex_clean :: frame where
  "ex_clean = \<lparr>columns = [''country'', ''year'', ''iso_code'', ''population'', ''gdp'', ''co2'',
       ''co2_per_capita'', ''coal_co2'', ''oil_co2'', ''gas_co2'', ''gdp_per_capita''],
     rows = [
       [Str ''World'', Num 1850, Num 0, Num 100, Num 1000, Num 50, Num (1/2), Num 30, Num 15, Num 5, Num 10],
       [Str ''Asia'', Num 1850, Num 0, Num 0, Num 1000, Num 20, Num 0, Num 12, Num 6, Num 2, Num 0],
       [Str ''Asia'', Num 1850, Num 0, Num 40, Num 0, Num 10, Num (1/4), Num 4, Num 0, Num 1, Num 0],
       [Str ''Europe'', Num 1900, Num 0, Num 50, Num 600, Num 30, Num (3/5), Num 20, Num 8, Num 2, Num 12],
       [Str ''France'', Num 1850, Str ''FRA'', Num 10, Num 300, Num 7, Num (7/10), Num 5, Num 2, Num 0, Num 30]]\<rparr>"

text \<open>The three views of the cleaned table at year 1850, as the model evaluates them.\<close>

definition ex_co2_view :: frame where
  "ex_co2_view = \<lparr>columns = [''country'', ''year'', ''co2''],
     rows = [[Str ''Asia'', Num 1850, Num 15], [Str ''World'', Num 1850, Num 50]]\<rparr>"

definition ex_scatter_view :: frame where
  "ex_scatter_view = \<lparr>columns = [''country'', ''year'', ''gdp_per_capita'', ''co2''],
     rows = [[Str ''France'', Num 1850, Num 30, Num 7]]\<rparr>"

definition ex_bar_view :: frame where
  "ex_bar_view = \<lparr>columns = [''year'', ''country'', ''coal_co2''],
     rows = [[Num 1850, Str ''Asia'', Num 16]]\<rparr>"

text \<open>A table with a row whose population and gdp are both infinite, raw and cleaned.\<close>

definition ex_inf_raw :: frame where
  "ex_inf_raw = \<lparr>columns = [''country'', ''year'', ''population'', ''gdp''],
     rows = [[Str ''Asia'', Num 1850, PosInf, PosInf],
             [Str ''Asia'', Num 1851, Num 100, Num 1000]]\<rparr>"

definition ex_inf_clean :: frame where
  "ex_inf_clean = \<lparr>columns = [''country'', ''year'', ''population'', ''gdp'', ''gdp_per_capita''],
     rows = [[Str ''Asia'', Num 1850, PosInf, PosInf, NaN],
             [Str ''Asia'', Num 1851, Num 100, Num 1000, Num 10]]\<rparr>"

text \<open>A table of regions in one year, and its bar view for coal at 1900.\<close>

definition ex_regions :: frame where
  "ex_regions = \<lparr>columns = [''country'', ''year'', ''coal_co2'', ''oil_co2'', ''gas_co2''],
     rows = [[Str ''Europe'', Num 1900, Num 20, Num 8, Num 2],
             [Str ''Asia'', Num 1900, Num 12, Num 6, Num 2],
             [Str ''World'', Num 1900, Num 36, Num 16, Num 5],
             [Str ''Asia'', Num 1900, Num 4, Num 0, Num 1],
             [Str ''France'', Num 1900, Num 5, Num 2, Num 0],
             [Str ''Africa'', Num 1850, Num 1, Num 0, Num 0]]\<rparr>"

definition ex_regions_bar_view :: frame where
  "ex_regions_bar_view = \<lparr>columns = [''year'', ''country'', ''coal_co2''],
     rows = [[Num 1900, Str ''Asia'', Num 16], [Num 1900, Str ''Europe'', Num 20]]\<rparr>"

text \<open>
  The page after the cleaning cell has run on the small table: the raw frame, the
  cleaned frame that \<^verbatim>\<open>df\<close> refers to, the slider at 1850 and no view evaluated yet.
\<close>

definition ex_dashboard :: dashboard where
  "ex_dashboard = \<lparr>objs = [ex_raw, ex_clean], table = 1, year_slider = 1850,
     yaxis_co2 = ''co2'', yaxis_co2_source = ''coal_co2'',
     co2_view = None, scatter_view = None, bar_view = None\<rparr>"

section \<open>Lemmas on the frame operations\<close>

lemma index_of_Some: "index_of x ys = Some i \<Longrightarrow> i < length ys \<and> ys ! i = x"
  by (induction ys arbitrary: i) (auto split: if_splits)

lemma index_of_None: "index_of x ys = None \<longleftrightarrow> x \<notin> set ys"
  by (induction ys) auto

lemma index_of_append_old: "index_of x ys = Some i \<Longrightarrow> index_of x (ys @ zs) = Some i"
  by (induction ys arbitrary: i) (auto split: if_splits)

lemma index_of_append_new: "x \<notin> set ys \<Longrightarrow> index_of x (ys @ [x]) = Some (length ys)"
  by (induction ys) auto

lemma each_Inr:
  "each f xs = Inr ys \<Longrightarrow> length ys = length xs \<and> (\<forall>i<length xs. f (xs ! i) = Inr (ys ! i))"
proof (induction xs arbitrary: ys)
  case Nil
  then show ?case by simp
next
  case (Cons x xs)
  from Cons.prems obtain y ys' where fx: "f x = Inr y" and ex: "each f xs = Inr ys'" and ys: "ys = y # ys'"
    by (cases "f x"; cases "each f xs") auto
  from Cons.IH[OF ex] fx ys show ?case
    by (auto simp: nth_Cons split: nat.splits)
qed

lemma each_total:
  "(\<And>x. x \<in> set xs \<Longrightarrow> \<exists>y. f x = Inr y) \<Longrightarrow> \<exists>ys. each f xs = Inr ys"
proof (induction xs)
  case Nil
  then show ?case by simp
next
  case (Cons x xs)
  then obtain y where "f x = Inr y" by auto
  moreover from Cons obtain ys where "each f xs = Inr ys" by auto
  ultimately show ?case by simp
qed

lemma fill_not_NaN: "fill v c \<noteq> NaN"
  by (cases c) auto

lemma truediv_numbers:
  assumes "truediv g p = Inr q" and "g \<noteq> NaN" and "p \<noteq> NaN"
  shows "is_number g \<and> is_number p"
  using assms by (cases g; cases p) (auto simp: is_number_def is_Inf_def)

lemma truediv_NaN_iff:
  assumes "truediv g p = Inr q" and "g \<noteq> NaN" and "p \<noteq> NaN" and "p \<noteq> Num 0"
  shows "q = NaN \<longleftrightarrow> is_Inf g \<and> is_Inf p"
  using assms by (cases g; cases p) (auto simp: is_Inf_def split: if_splits)

lemma ebind_eq_Inr: "ebind m f = Inr y \<longleftrightarrow> (\<exists>x. m = Inr x \<and> f x = Inr y)"
  by (cases m) auto

lemma getitem_eq_Inr:
  "getitem df n = Inr xs \<longleftrightarrow>
     (\<exists>i. index_of n (columns df) = Some i \<and> xs = map (\<lambda>r. r ! i) (rows df))"
  by (auto simp: getitem_def split: option.splits)

lemma clean_unfold:
  assumes "clean raw = Inr df"
  shows "\<exists>ip ig q. index_of ''population'' (columns raw) = Some ip
           \<and> index_of ''gdp'' (columns raw) = Some ig
           \<and> truediv_cols (map (\<lambda>r. r ! ig) (rows (fillna 0 raw)))
                 (map (\<lambda>r. r ! ip) (rows (fillna 0 raw))) = Inr q
           \<and> df = setitem (fillna 0 raw) ''gdp_per_capita''
                 (np_where (ne_scalar (map (\<lambda>r. r ! ip) (rows (fillna 0 raw))) 0) q (Num 0))"
  using assms
  by (auto simp: clean_def Let_def ebind_eq_Inr getitem_eq_Inr fillna_def)

text \<open>What the cleaning step does to row \<open>i\<close>.\<close>

lemma clean_row:
  assumes wf: "wf_frame raw" and cl: "clean raw = Inr df"
  shows "\<exists>ip ig. index_of ''population'' (columns raw) = Some ip
           \<and> index_of ''gdp'' (columns raw) = Some ig
           \<and> length (rows df) = length (rows raw)
           \<and> columns df = (case index_of ''gdp_per_capita'' (columns raw) of
                             None \<Rightarrow> columns raw @ [''gdp_per_capita'']
                           | Some k \<Rightarrow> columns raw)
           \<and> (\<forall>i < length (rows raw). \<exists>q.
                 truediv (fill 0 (rows raw ! i ! ig)) (fill 0 (rows raw ! i ! ip)) = Inr q
               \<and> rows df ! i = (case index_of ''gdp_per_capita'' (columns raw) of
                     None \<Rightarrow> map (fill 0) (rows raw ! i)
                              @ [if fill 0 (rows raw ! i ! ip) \<noteq> Num 0 then q else Num 0]
                   | Some k \<Rightarrow> (map (fill 0) (rows raw ! i))
                              [k := if fill 0 (rows raw ! i ! ip) \<noteq> Num 0 then q else Num 0]))"
proof -
  from clean_unfold[OF cl] obtain ip ig q where
    ip: "index_of ''population'' (columns raw) = Some ip" and
    ig: "index_of ''gdp'' (columns raw) = Some ig" and
    q: "truediv_cols (map (\<lambda>r. r ! ig) (rows (fillna 0 raw)))
          (map (\<lambda>r. r ! ip) (rows (fillna 0 raw))) = Inr q" and
    df: "df = setitem (fillna 0 raw) ''gdp_per_capita''
          (np_where (ne_scalar (map (\<lambda>r. r ! ip) (rows (fillna 0 raw))) 0) q (Num 0))"
    by blast
  let ?n = "length (rows raw)"
  let ?F = "rows (fillna 0 raw)"
  have lenF: "length ?F = ?n" by (simp add: fillna_def)
  have Fi: "?F ! i = map (fill 0) (rows raw ! i)" if "i < ?n" for i
    using that by (simp add: fillna_def)
  from each_Inr[OF q[unfolded truediv_cols_def]]
  have lenq: "length q = ?n"
    and qi: "\<And>i. i < ?n \<Longrightarrow> truediv (?F ! i ! ig) (?F ! i ! ip) = Inr (q ! i)"
    by (auto simp: lenF)
  let ?vals = "np_where (ne_scalar (map (\<lambda>r. r ! ip) ?F) 0) q (Num 0)"
  have lenv: "length ?vals = ?n" by (simp add: np_where_def ne_scalar_def lenF lenq)
  have vi: "?vals ! i = (if ?F ! i ! ip \<noteq> Num 0 then q ! i else Num 0)" if "i < ?n" for i
    using that by (simp add: np_where_def ne_scalar_def lenF lenq)
  have len_row: "length r = length (columns raw)" if "r \<in> set (rows raw)" for r
    using wf that by (simp add: wf_frame_def)
  from index_of_Some[OF ip] have ip_lt: "ip < length (columns raw)" by simp
  from index_of_Some[OF ig] have ig_lt: "ig < length (columns raw)" by simp
  have cell: "truediv (fill 0 (rows raw ! i ! ig)) (fill 0 (rows raw ! i ! ip)) = Inr (q ! i)
      \<and> ?vals ! i = (if fill 0 (rows raw ! i ! ip) \<noteq> Num 0 then q ! i else Num 0)"
    if i: "i < ?n" for i
  proof -
    from i have "length (rows raw ! i) = length (columns raw)" by (simp add: len_row)
    with ip_lt ig_lt Fi[OF i]
    have a: "?F ! i ! ip = fill 0 (rows raw ! i ! ip)" and b: "?F ! i ! ig = fill 0 (rows raw ! i ! ig)"
      by simp_all
    from qi[OF i] vi[OF i] a b show ?thesis by simp
  qed
  have cols: "columns df = (case index_of ''gdp_per_capita'' (columns raw) of
                             None \<Rightarrow> columns raw @ [''gdp_per_capita'']
                           | Some k \<Rightarrow> columns raw)"
    by (simp add: df setitem_def fillna_def split: option.splits)
  have len_df: "length (rows df) = ?n"
    using lenv lenF by (simp add: df setitem_def fillna_def split: option.splits)
  have row: "rows df ! i = (case index_of ''gdp_per_capita'' (columns raw) of
                     None \<Rightarrow> map (fill 0) (rows raw ! i) @ [?vals ! i]
                   | Some k \<Rightarrow> (map (fill 0) (rows raw ! i))[k := ?vals ! i])" if i: "i < ?n" for i
    using i lenv lenF Fi[OF i]
    by (simp add: df setitem_def split: option.splits) (simp add: fillna_def)
  have rows': "\<exists>q. truediv (fill 0 (rows raw ! i ! ig)) (fill 0 (rows raw ! i ! ip)) = Inr q
      \<and> rows df ! i = (case index_of ''gdp_per_capita'' (columns raw) of
            None \<Rightarrow> map (fill 0) (rows raw ! i)
                     @ [if fill 0 (rows raw ! i ! ip) \<noteq> Num 0 then q else Num 0]
          | Some k \<Rightarrow> (map (fill 0) (rows raw ! i))
                     [k := if fill 0 (rows raw ! i ! ip) \<noteq> Num 0 then q else Num 0])"
    if i: "i < ?n" for i
  proof -
    from cell[OF i] row[OF i] show ?thesis
      by (intro exI[of _ "q ! i"]) (simp split: option.splits)
  qed
  show ?thesis
    apply (rule exI[of _ ip], rule exI[of _ ig])
    using ip ig len_df cols rows' by simp
qed

lemma cell_at_put_other:
  assumes "length r = length cols" "index_of n cols = Some j" "n \<noteq> m"
  shows "cell_at (case index_of m cols of None \<Rightarrow> cols @ [m] | Some k \<Rightarrow> cols)
           (case index_of m cols of None \<Rightarrow> r @ [v] | Some k \<Rightarrow> r[k := v]) n = Some (r ! j)"
proof (cases "index_of m cols")
  case None
  with assms index_of_Some[OF assms(2)] show ?thesis
    by (simp add: cell_at_def index_of_append_old nth_append)
next
  case (Some k)
  from index_of_Some[OF Some] index_of_Some[OF assms(2)] assms(3) have "k \<noteq> j" by auto
  with Some assms show ?thesis by (simp add: cell_at_def)
qed

lemma cell_at_put_same:
  assumes "length r = length cols"
  shows "cell_at (case index_of m cols of None \<Rightarrow> cols @ [m] | Some k \<Rightarrow> cols)
           (case index_of m cols of None \<Rightarrow> r @ [v] | Some k \<Rightarrow> r[k := v]) m = Some v"
proof (cases "index_of m cols")
  case None
  then have "m \<notin> set cols" by (simp add: index_of_None)
  with None assms[symmetric] show ?thesis by (simp add: cell_at_def index_of_append_new)
next
  case (Some k)
  with index_of_Some[OF Some] assms show ?thesis by (simp add: cell_at_def)
qed

lemma cell_at_nth:
  assumes "index_of n cols = Some i"
  shows "cell_at cols r n = Some (r ! i)"
  using assms by (simp add: cell_at_def)

text \<open>The three cells that matter, in row \<open>i\<close> of the cleaned table.\<close>

lemma clean_cells:
  assumes wf: "wf_frame raw" and cl: "clean raw = Inr df" and i: "i < length (rows raw)"
  shows "\<exists>ip ig p g q. index_of ''population'' (columns raw) = Some ip
           \<and> index_of ''gdp'' (columns raw) = Some ig
           \<and> p = fill 0 (rows raw ! i ! ip) \<and> g = fill 0 (rows raw ! i ! ig)
           \<and> truediv g p = Inr q
           \<and> cell_at (columns df) (rows df ! i) ''population'' = Some p
           \<and> cell_at (columns df) (rows df ! i) ''gdp'' = Some g
           \<and> cell_at (columns df) (rows df ! i) ''gdp_per_capita''
               = Some (if p \<noteq> Num 0 then q else Num 0)"
proof -
  from clean_row[OF wf cl] obtain ip ig where
    ip: "index_of ''population'' (columns raw) = Some ip" and
    ig: "index_of ''gdp'' (columns raw) = Some ig" and
    cols: "columns df = (case index_of ''gdp_per_capita'' (columns raw) of
             None \<Rightarrow> columns raw @ [''gdp_per_capita''] | Some k \<Rightarrow> columns raw)" and
    rws: "\<forall>i < length (rows raw). \<exists>q.
            truediv (fill 0 (rows raw ! i ! ig)) (fill 0 (rows raw ! i ! ip)) = Inr q
          \<and> rows df ! i = (case index_of ''gdp_per_capita'' (columns raw) of
                None \<Rightarrow> map (fill 0) (rows raw ! i)
                         @ [if fill 0 (rows raw ! i ! ip) \<noteq> Num 0 then q else Num 0]
              | Some k \<Rightarrow> (map (fill 0) (rows raw ! i))
                         [k := if fill 0 (rows raw ! i ! ip) \<noteq> Num 0 then q else Num 0])"
    by blast
  let ?p = "fill 0 (rows raw ! i ! ip)" and ?g = "fill 0 (rows raw ! i ! ig)"
  from rws i obtain q where
    q: "truediv ?g ?p = Inr q" and
    row: "rows df ! i = (case index_of ''gdp_per_capita'' (columns raw) of
                None \<Rightarrow> map (fill 0) (rows raw ! i) @ [if ?p \<noteq> Num 0 then q else Num 0]
              | Some k \<Rightarrow> (map (fill 0) (rows raw ! i))[k := if ?p \<noteq> Num 0 then q else Num 0])"
    by blast
  let ?r = "map (fill 0) (rows raw ! i)"
  from wf i have len: "length ?r = length (columns raw)" by (simp add: wf_frame_def)
  from index_of_Some[OF ip] index_of_Some[OF ig] len
  have rp: "?r ! ip = ?p" and rg: "?r ! ig = ?g"
    by simp_all
  have "cell_at (columns df) (rows df ! i) ''population'' = Some (?r ! ip)"
    unfolding cols row by (rule cell_at_put_other[OF len ip]) simp
  moreover have "cell_at (columns df) (rows df ! i) ''gdp'' = Some (?r ! ig)"
    unfolding cols row by (rule cell_at_put_other[OF len ig]) simp
  moreover have "cell_at (columns df) (rows df ! i) ''gdp_per_capita''
      = Some (if ?p \<noteq> Num 0 then q else Num 0)"
    unfolding cols row by (rule cell_at_put_same[OF len])
  ultimately show ?thesis using ip ig q rp rg by simp
qed

lemma clean_length:
  assumes "wf_frame raw" "clean raw = Inr df"
  shows "length (rows df) = length (rows raw)"
  using clean_row[OF assms] by blast

lemma float_column_clean:
  assumes wf: "wf_frame raw" and fp: "float_column raw ''population''"
    and fg: "float_column raw ''gdp''"
  shows "\<exists>df. clean raw = Inr df"
proof -
  from fp obtain ip where ip: "index_of ''population'' (columns raw) = Some ip"
    and np: "\<forall>r \<in> set (rows raw). \<not> is_Str (r ! ip)"
    by (auto simp: float_column_def list_all_iff split: option.splits)
  from fg obtain ig where ig: "index_of ''gdp'' (columns raw) = Some ig"
    and ng: "\<forall>r \<in> set (rows raw). \<not> is_Str (r ! ig)"
    by (auto simp: float_column_def list_all_iff split: option.splits)
  have len: "\<forall>r \<in> set (rows raw). length r = length (columns raw)"
    using wf by (simp add: wf_frame_def)
  from index_of_Some[OF ip] index_of_Some[OF ig]
  have lt: "ip < length (columns raw)" "ig < length (columns raw)" by simp_all
  have div: "\<exists>y. truediv (fill 0 a) (fill 0 b) = Inr y" if "\<not> is_Str a" "\<not> is_Str b" for a b
    using that by (cases a; cases b) auto
  have "\<exists>q. truediv_cols (map (\<lambda>r. r ! ig) (rows (fillna 0 raw)))
              (map (\<lambda>r. r ! ip) (rows (fillna 0 raw))) = Inr q"
    unfolding truediv_cols_def
  proof (rule each_total)
    fix x assume "x \<in> set (zip (map (\<lambda>r. r ! ig) (rows (fillna 0 raw)))
                          (map (\<lambda>r. r ! ip) (rows (fillna 0 raw))))"
    then obtain n where n: "n < length (rows raw)"
      and x: "x = (map (fill 0) (rows raw ! n) ! ig, map (fill 0) (rows raw ! n) ! ip)"
      by (auto simp: set_zip fillna_def)
    from n have mem: "rows raw ! n \<in> set (rows raw)" by simp
    with len lt have "x = (fill 0 (rows raw ! n ! ig), fill 0 (rows raw ! n ! ip))"
      by (simp add: x)
    with div np ng mem show "\<exists>y. (case x of (a, b) \<Rightarrow> truediv a b) = Inr y" by simp
  qed
  then show ?thesis
    using ip ig by (auto simp: clean_def Let_def getitem_def fillna_def)
qed

lemma fill_eq: "fill 0 c = (if c = NaN then Num 0 else c)"
  by (cases c) auto

lemma getattr_eq_Inr:
  "getattr df n = Inr xs \<longleftrightarrow>
     (\<exists>i. index_of n (columns df) = Some i \<and> xs = map (\<lambda>r. r ! i) (rows df))"
  by (auto simp: getattr_def split: option.splits)

lemma index_or_raise_eq_Inr: "index_or_raise cols n = Inr i \<longleftrightarrow> index_of n cols = Some i"
  by (simp add: index_or_raise_def split: option.splits)

lemma le_scalar_map:
  assumes "le_scalar (map f rs) v = Inr m"
  shows "m = map (\<lambda>r. le_cell (f r) v = Inr True) rs"
proof (rule nth_equalityI)
  from each_Inr[OF assms[unfolded le_scalar_def]]
  have len: "length m = length rs"
    and nth: "\<And>i. i < length rs \<Longrightarrow> le_cell (f (rs ! i)) v = Inr (m ! i)" by auto
  from len show "length m = length (map (\<lambda>r. le_cell (f r) v = Inr True) rs)" by simp
  fix i assume "i < length m"
  with len nth[of i] show "m ! i = map (\<lambda>r. le_cell (f r) v = Inr True) rs ! i" by auto
qed

lemma le_cell_True:
  "le_cell c v = Inr True \<longleftrightarrow> c = NegInf \<or> (\<exists>y. c = Num y \<and> y \<le> v)"
  by (cases c) auto

lemma eq_scalar_map: "eq_scalar (map f rs) v = map (\<lambda>r. f r = Num v) rs"
  by (simp add: eq_scalar_def)

lemma isin_map: "isin (map f rs) names = map (\<lambda>r. f r \<in> Str ` set names) rs"
  by (simp add: isin_def)

lemma and_mask_map: "and_mask (map P xs) (map Q xs) = map (\<lambda>x. P x \<and> Q x) xs"
  by (induction xs) (auto simp: and_mask_def)

lemma not_mask_map: "not_mask (map P xs) = map (\<lambda>x. \<not> P x) xs"
  by (simp add: not_mask_def)

lemma filter_by_mask: "map fst (filter snd (zip xs (map P xs))) = filter P xs"
  by (induction xs) auto

lemma getitem_mask_map:
  "getitem_mask df (map P (rows df)) = \<lparr>columns = columns df, rows = filter P (rows df)\<rparr>"
  by (simp add: getitem_mask_def filter_by_mask)

text \<open>The shape of a grouped and aggregated frame.\<close>

lemma groupby_agg_Inr:
  assumes "groupby_agg agg keys c df = Inr g"
  shows "\<exists>ks j. each (index_or_raise (columns df)) keys = Inr ks
           \<and> index_of c (columns df) = Some j \<and> c \<notin> set keys
           \<and> columns g = keys @ [c]
           \<and> distinct (map butlast (rows g))
           \<and> (\<forall>row \<in> set (rows g). \<exists>r \<in> set (rows df). \<exists>v.
                 NaN \<notin> set (map (\<lambda>i. r ! i) ks)
               \<and> row = map (\<lambda>i. r ! i) ks @ [v]
               \<and> agg (map (\<lambda>r'. r' ! j)
                      (filter (\<lambda>r'. map (\<lambda>i. r' ! i) ks = map (\<lambda>i. r ! i) ks)
                         (filter (\<lambda>r'. NaN \<notin> set (map (\<lambda>i. r' ! i) ks)) (rows df)))) = Inr v)"
proof -
  from assms obtain ks j rs where
    ks: "each (index_or_raise (columns df)) keys = Inr ks" and
    j: "index_of c (columns df) = Some j" and
    rs: "each (\<lambda>k. ebind (agg (map (\<lambda>r. r ! j)
              (filter (\<lambda>r. map (\<lambda>i. r ! i) ks = k)
                 (filter (\<lambda>r. NaN \<notin> set (map (\<lambda>i. r ! i) ks)) (rows df)))))
              (\<lambda>v. Inr (k @ [v])))
           (sort_key (map cell_rank)
              (remdups (map (\<lambda>r. map (\<lambda>i. r ! i) ks)
                 (filter (\<lambda>r. NaN \<notin> set (map (\<lambda>i. r ! i) ks)) (rows df))))) = Inr rs" and
    c: "c \<notin> set keys" and g: "g = \<lparr>columns = keys @ [c], rows = rs\<rparr>"
    by (auto simp: groupby_agg_def Let_def ebind_eq_Inr index_or_raise_eq_Inr split: if_splits)
  let ?live = "filter (\<lambda>r. NaN \<notin> set (map (\<lambda>i. r ! i) ks)) (rows df)"
  let ?gks = "sort_key (map cell_rank) (remdups (map (\<lambda>r. map (\<lambda>i. r ! i) ks) ?live))"
  from each_Inr[OF rs]
  have len: "length rs = length ?gks"
    and nth: "\<And>n. n < length ?gks \<Longrightarrow>
       ebind (agg (map (\<lambda>r. r ! j) (filter (\<lambda>r. map (\<lambda>i. r ! i) ks = ?gks ! n) ?live)))
         (\<lambda>v. Inr (?gks ! n @ [v])) = Inr (rs ! n)"
    by auto
  have row: "\<exists>v. agg (map (\<lambda>r. r ! j) (filter (\<lambda>r. map (\<lambda>i. r ! i) ks = ?gks ! n) ?live)) = Inr v
      \<and> rs ! n = ?gks ! n @ [v]" if "n < length ?gks" for n
    using nth[OF that] by (auto simp: ebind_eq_Inr)
  have "map butlast rs = ?gks"
  proof (rule nth_equalityI)
    show "length (map butlast rs) = length ?gks" by (simp add: len)
    fix n assume "n < length (map butlast rs)"
    then have n: "n < length ?gks" by (simp add: len)
    from row[OF n] obtain v where "rs ! n = ?gks ! n @ [v]" by blast
    with n len show "map butlast rs ! n = ?gks ! n" by simp
  qed
  moreover have "distinct ?gks" by simp
  ultimately have d: "distinct (map butlast (rows g))" by (simp add: g)
  have "\<exists>r \<in> set (rows df). \<exists>v.
          NaN \<notin> set (map (\<lambda>i. r ! i) ks)
        \<and> x = map (\<lambda>i. r ! i) ks @ [v]
        \<and> agg (map (\<lambda>r'. r' ! j)
               (filter (\<lambda>r'. map (\<lambda>i. r' ! i) ks = map (\<lambda>i. r ! i) ks) ?live)) = Inr v"
    if "x \<in> set rs" for x
  proof -
    from that len obtain n where n: "n < length ?gks" and x: "rs ! n = x"
      by (auto simp: in_set_conv_nth)
    from n have "?gks ! n \<in> set ?gks" by (rule nth_mem)
    then obtain r where r: "r \<in> set ?live" and k: "?gks ! n = map (\<lambda>i. r ! i) ks"
      by auto
    from row[OF n] x k obtain v where
      "agg (map (\<lambda>r'. r' ! j) (filter (\<lambda>r'. map (\<lambda>i. r' ! i) ks = map (\<lambda>i. r ! i) ks) ?live))
         = Inr v" and "x = map (\<lambda>i. r ! i) ks @ [v]"
      by auto
    with r show ?thesis by auto
  qed
  with ks j c d show ?thesis unfolding g by auto
qed

text \<open>Every key that occurs in the frame has its row in the grouped frame.\<close>

lemma groupby_agg_keys:
  assumes "groupby_agg agg keys c df = Inr g"
    and "each (index_or_raise (columns df)) keys = Inr ks"
  shows "set (map butlast (rows g))
           = (\<lambda>r. map (\<lambda>i. r ! i) ks) ` {r \<in> set (rows df). NaN \<notin> set (map (\<lambda>i. r ! i) ks)}"
proof -
  from assms obtain j rs where
    rs: "each (\<lambda>k. ebind (agg (map (\<lambda>r. r ! j)
              (filter (\<lambda>r. map (\<lambda>i. r ! i) ks = k)
                 (filter (\<lambda>r. NaN \<notin> set (map (\<lambda>i. r ! i) ks)) (rows df)))))
              (\<lambda>v. Inr (k @ [v])))
           (sort_key (map cell_rank)
              (remdups (map (\<lambda>r. map (\<lambda>i. r ! i) ks)
                 (filter (\<lambda>r. NaN \<notin> set (map (\<lambda>i. r ! i) ks)) (rows df))))) = Inr rs" and
    g: "g = \<lparr>columns = keys @ [c], rows = rs\<rparr>"
    by (auto simp: groupby_agg_def Let_def ebind_eq_Inr index_or_raise_eq_Inr split: if_splits)
  let ?live = "filter (\<lambda>r. NaN \<notin> set (map (\<lambda>i. r ! i) ks)) (rows df)"
  let ?gks = "sort_key (map cell_rank) (remdups (map (\<lambda>r. map (\<lambda>i. r ! i) ks) ?live))"
  from each_Inr[OF rs]
  have len: "length rs = length ?gks"
    and nth: "\<And>n. n < length ?gks \<Longrightarrow>
       ebind (agg (map (\<lambda>r. r ! j) (filter (\<lambda>r. map (\<lambda>i. r ! i) ks = ?gks ! n) ?live)))
         (\<lambda>v. Inr (?gks ! n @ [v])) = Inr (rs ! n)"
    by auto
  have "map butlast rs = ?gks"
  proof (rule nth_equalityI)
    show "length (map butlast rs) = length ?gks" by (simp add: len)
    fix n assume "n < length (map butlast rs)"
    then have n: "n < length ?gks" by (simp add: len)
    from nth[OF n] have "\<exists>v. ?gks ! n @ [v] = rs ! n" by (auto simp: ebind_eq_Inr)
    then obtain v where "rs ! n = ?gks ! n @ [v]" by metis
    with n len show "map butlast rs ! n = ?gks ! n" by simp
  qed
  then have "set (map butlast (rows g)) = set ?gks" by (simp add: g)
  then show ?thesis by auto
qed

lemma sort_values_Inr:
  assumes "sort_values n g = Inr v"
  shows "columns v = columns g \<and> set (rows v) = set (rows g)
         \<and> (distinct (map f (rows g)) \<longrightarrow> distinct (map f (rows v)))"
proof -
  from assms obtain i where
    v: "v = \<lparr>columns = columns g, rows = sort_key (\<lambda>r. cell_rank (r ! i)) (rows g)\<rparr>"
    by (auto simp: sort_values_def Let_def ebind_eq_Inr split: if_splits)
  show ?thesis by (simp add: v distinct_map)
qed

lemma each_two:
  "each (index_or_raise cols) [a, b] = Inr ks \<longleftrightarrow>
     (\<exists>ia ib. index_of a cols = Some ia \<and> index_of b cols = Some ib \<and> ks = [ia, ib])"
  by (auto simp: ebind_eq_Inr index_or_raise_eq_Inr)

lemma each_three:
  "each (index_or_raise cols) [a, b, c] = Inr ks \<longleftrightarrow>
     (\<exists>ia ib ic. index_of a cols = Some ia \<and> index_of b cols = Some ib
        \<and> index_of c cols = Some ic \<and> ks = [ia, ib, ic])"
  by (auto simp: ebind_eq_Inr index_or_raise_eq_Inr)

text \<open>A view is a filter, a grouping and a sort: its rows, traced back to the table.\<close>

lemma view_rows:
  assumes g: "groupby_agg agg keys c \<lparr>columns = cols, rows = filter P rs\<rparr> = Inr g"
    and v: "sort_values n g = Inr v"
  shows "\<exists>ks j. each (index_or_raise cols) keys = Inr ks
           \<and> index_of c cols = Some j \<and> c \<notin> set keys
           \<and> columns v = keys @ [c]
           \<and> distinct (map butlast (rows v))
           \<and> (\<forall>row \<in> set (rows v). \<exists>r \<in> set rs. \<exists>x.
                 P r \<and> NaN \<notin> set (map (\<lambda>i. r ! i) ks)
               \<and> row = map (\<lambda>i. r ! i) ks @ [x]
               \<and> agg (map (\<lambda>r'. r' ! j)
                      (filter (\<lambda>r'. map (\<lambda>i. r' ! i) ks = map (\<lambda>i. r ! i) ks)
                         (filter (\<lambda>r'. NaN \<notin> set (map (\<lambda>i. r' ! i) ks)) (filter P rs)))) = Inr x)"
proof -
  from groupby_agg_Inr[OF g] obtain ks j where
    ks: "each (index_or_raise cols) keys = Inr ks" and j: "index_of c cols = Some j" and
    c: "c \<notin> set keys" and cg: "columns g = keys @ [c]" and
    d: "distinct (map butlast (rows g))" and
    rws: "\<forall>row \<in> set (rows g). \<exists>r \<in> set (filter P rs). \<exists>x.
                 NaN \<notin> set (map (\<lambda>i. r ! i) ks)
               \<and> row = map (\<lambda>i. r ! i) ks @ [x]
               \<and> agg (map (\<lambda>r'. r' ! j)
                      (filter (\<lambda>r'. map (\<lambda>i. r' ! i) ks = map (\<lambda>i. r ! i) ks)
                         (filter (\<lambda>r'. NaN \<notin> set (map (\<lambda>i. r' ! i) ks)) (filter P rs)))) = Inr x"
    by auto
  from sort_values_Inr[OF v, of butlast] d cg
  have cv: "columns v = keys @ [c]" and sv: "set (rows v) = set (rows g)"
    and dv: "distinct (map butlast (rows v))" by auto
  from rws have "\<forall>row \<in> set (rows v). \<exists>r \<in> set rs. \<exists>x.
                 P r \<and> NaN \<notin> set (map (\<lambda>i. r ! i) ks)
               \<and> row = map (\<lambda>i. r ! i) ks @ [x]
               \<and> agg (map (\<lambda>r'. r' ! j)
                      (filter (\<lambda>r'. map (\<lambda>i. r' ! i) ks = map (\<lambda>i. r ! i) ks)
                         (filter (\<lambda>r'. NaN \<notin> set (map (\<lambda>i. r' ! i) ks)) (filter P rs)))) = Inr x"
    unfolding sv by fastforce
  with ks j c cv dv show ?thesis by blast
qed

lemma view_keys:
  assumes g: "groupby_agg agg keys c \<lparr>columns = cols, rows = filter P rs\<rparr> = Inr g"
    and v: "sort_values n g = Inr v"
    and ks: "each (index_or_raise cols) keys = Inr ks"
    and r: "r \<in> set rs" "P r" "NaN \<notin> set (map (\<lambda>i. r ! i) ks)"
  shows "\<exists>row \<in> set (rows v). butlast row = map (\<lambda>i. r ! i) ks"
proof -
  from groupby_agg_keys[OF g] ks r
  have "map (\<lambda>i. r ! i) ks \<in> set (map butlast (rows g))" by auto
  moreover from sort_values_Inr[OF v, of id] have "set (rows v) = set (rows g)" by simp
  ultimately show ?thesis by auto
qed

lemma distinct_map_finer:
  assumes "distinct (map g xs)"
    and "\<And>x y. x \<in> set xs \<Longrightarrow> y \<in> set xs \<Longrightarrow> f x = f y \<Longrightarrow> g x = g y"
  shows "distinct (map f xs)"
  using assms
proof (induction xs)
  case Nil
  then show ?case by simp
next
  case (Cons a xs)
  have "f a \<notin> f ` set xs"
  proof
    assume "f a \<in> f ` set xs"
    then obtain y where y: "y \<in> set xs" "f a = f y" by auto
    with Cons.prems(2)[of a y] have "g a = g y" by simp
    with y Cons.prems(1) show False by auto
  qed
  moreover from Cons have "distinct (map f xs)" by auto
  ultimately show ?case by simp
qed

text \<open>The rows of the bar view, traced back to the table.\<close>

lemma bar_view_rows:
  assumes "co2_source_bar_pipeline df Y c = Inr v"
  shows "\<exists>iy ic j. index_of ''year'' (columns df) = Some iy
           \<and> index_of ''country'' (columns df) = Some ic
           \<and> index_of c (columns df) = Some j
           \<and> columns v = [''year'', ''country'', c] \<and> c \<noteq> ''year'' \<and> c \<noteq> ''country''
           \<and> distinct (map butlast (rows v))
           \<and> (\<forall>row \<in> set (rows v). \<exists>k \<in> set continents_excl_world. \<exists>x.
                 row = [Num (of_int Y), Str k, x]
               \<and> sum_agg (map (\<lambda>r. r ! j)
                   (filter (\<lambda>r. r ! iy = Num (of_int Y) \<and> r ! ic = Str k) (rows df))) = Inr x)
           \<and> (\<forall>k \<in> set continents_excl_world. \<forall>r \<in> set (rows df).
                 r ! iy = Num (of_int Y) \<and> r ! ic = Str k \<longrightarrow>
                 (\<exists>row \<in> set (rows v). butlast row = [Num (of_int Y), Str k]))"
proof -
  from assms obtain iy ic g where
    iy: "index_of ''year'' (columns df) = Some iy" and
    ic: "index_of ''country'' (columns df) = Some ic" and
    g: "groupby_agg sum_agg [''year'', ''country''] c
          (getitem_mask df (and_mask (eq_scalar (map (\<lambda>r. r ! iy) (rows df)) (of_int Y))
             (isin (map (\<lambda>r. r ! ic) (rows df)) continents_excl_world))) = Inr g" and
    sv: "sort_values ''year'' g = Inr v"
    by (auto simp: co2_source_bar_pipeline_def ebind_eq_Inr getattr_eq_Inr)
  let ?P = "\<lambda>r. r ! iy = Num (of_int Y) \<and> r ! ic \<in> Str ` set continents_excl_world"
  have F: "getitem_mask df (and_mask (eq_scalar (map (\<lambda>r. r ! iy) (rows df)) (of_int Y))
             (isin (map (\<lambda>r. r ! ic) (rows df)) continents_excl_world))
             = \<lparr>columns = columns df, rows = filter ?P (rows df)\<rparr>"
    by (simp add: eq_scalar_map isin_map and_mask_map getitem_mask_map)
  note g' = g[unfolded F]
  from view_rows[OF g' sv] obtain ks j where
    ks: "each (index_or_raise (columns df)) [''year'', ''country''] = Inr ks" and
    j: "index_of c (columns df) = Some j" and
    c: "c \<notin> set [''year'', ''country'']" and
    cols: "columns v = [''year'', ''country''] @ [c]" and
    d: "distinct (map butlast (rows v))" and
    rws0: "\<forall>row \<in> set (rows v). \<exists>r \<in> set (rows df). \<exists>x.
             ?P r \<and> NaN \<notin> set (map (\<lambda>i. r ! i) ks) \<and> row = map (\<lambda>i. r ! i) ks @ [x]
           \<and> sum_agg (map (\<lambda>r'. r' ! j)
                 (filter (\<lambda>r'. map (\<lambda>i. r' ! i) ks = map (\<lambda>i. r ! i) ks)
                    (filter (\<lambda>r'. NaN \<notin> set (map (\<lambda>i. r' ! i) ks)) (filter ?P (rows df))))) = Inr x"
    by blast
  from ks[unfolded each_two] ic iy have ksv: "ks = [iy, ic]" by auto
  have "\<exists>k \<in> set continents_excl_world. \<exists>x.
          row = [Num (of_int Y), Str k, x]
        \<and> sum_agg (map (\<lambda>r. r ! j)
            (filter (\<lambda>r. r ! iy = Num (of_int Y) \<and> r ! ic = Str k) (rows df))) = Inr x"
    if "row \<in> set (rows v)" for row
  proof -
    from rws0 that obtain r x where P: "?P r" and row: "row = map (\<lambda>i. r ! i) ks @ [x]" and
      s: "sum_agg (map (\<lambda>r'. r' ! j)
            (filter (\<lambda>r'. map (\<lambda>i. r' ! i) ks = map (\<lambda>i. r ! i) ks)
               (filter (\<lambda>r'. NaN \<notin> set (map (\<lambda>i. r' ! i) ks)) (filter ?P (rows df))))) = Inr x"
      by blast
    from P obtain k where k: "k \<in> set continents_excl_world" "r ! ic = Str k" by auto
    have "filter (\<lambda>r'. map (\<lambda>i. r' ! i) ks = map (\<lambda>i. r ! i) ks)
               (filter (\<lambda>r'. NaN \<notin> set (map (\<lambda>i. r' ! i) ks)) (filter ?P (rows df)))
          = filter (\<lambda>r'. r' ! iy = Num (of_int Y) \<and> r' ! ic = Str k) (rows df)"
      unfolding filter_filter using P k by (intro filter_cong refl) (auto simp: ksv)
    with s have "sum_agg (map (\<lambda>r. r ! j)
            (filter (\<lambda>r. r ! iy = Num (of_int Y) \<and> r ! ic = Str k) (rows df))) = Inr x" by simp
    moreover from row P k have "row = [Num (of_int Y), Str k, x]" by (simp add: ksv)
    ultimately show ?thesis using k by blast
  qed
  moreover have "\<exists>row \<in> set (rows v). butlast row = [Num (of_int Y), Str k]"
    if "k \<in> set continents_excl_world" "r \<in> set (rows df)"
      "r ! iy = Num (of_int Y)" "r ! ic = Str k" for k r
  proof -
    from that have "?P r" "NaN \<notin> set (map (\<lambda>i. r ! i) ks)" by (auto simp: ksv)
    from view_keys[OF g' sv ks that(2) this] that(3,4) show ?thesis by (simp add: ksv)
  qed
  ultimately show ?thesis using iy ic j cols c d by auto
qed

text \<open>The value of a bar-view row is the sum over the matching rows of the table.\<close>

lemma bar_view_values:
  assumes "float_column df c" and "co2_source_bar_pipeline df Y c = Inr v"
  shows "\<forall>r \<in> set (rows v). \<exists>k \<in> set continents_excl_world.
            r = [Num (of_int Y), Str k, column_sum df c (matching_rows df (of_int Y) k)]"
proof -
  from bar_view_rows[OF assms(2)] obtain iy ic j where
    iy: "index_of ''year'' (columns df) = Some iy" and
    ic: "index_of ''country'' (columns df) = Some ic" and
    j: "index_of c (columns df) = Some j" and
    rws: "\<forall>row \<in> set (rows v). \<exists>k \<in> set continents_excl_world. \<exists>x.
                 row = [Num (of_int Y), Str k, x]
               \<and> sum_agg (map (\<lambda>r. r ! j)
                   (filter (\<lambda>r. r ! iy = Num (of_int Y) \<and> r ! ic = Str k) (rows df))) = Inr x"
    by blast
  from assms(1) j have nostr: "\<forall>r \<in> set (rows df). \<not> is_Str (r ! j)"
    by (simp add: float_column_def list_all_iff)
  have m: "matching_rows df (of_int Y) k
             = filter (\<lambda>r. r ! iy = Num (of_int Y) \<and> r ! ic = Str k) (rows df)" for k
    by (simp add: matching_rows_def cell_at_nth[OF iy] cell_at_nth[OF ic])
  have total: "x = column_sum df c (matching_rows df (of_int Y) k)"
    if "sum_agg (map (\<lambda>r. r ! j)
          (filter (\<lambda>r. r ! iy = Num (of_int Y) \<and> r ! ic = Str k) (rows df))) = Inr x" for k x
  proof -
    let ?rs = "filter (\<lambda>r. r ! iy = Num (of_int Y) \<and> r ! ic = Str k) (rows df)"
    from nostr have "\<not> list_ex is_Str (map (\<lambda>r. r ! j) ?rs)" by (auto simp: list_ex_iff)
    with that have "x = float_sum (map (\<lambda>r. r ! j) ?rs)" by (simp add: sum_agg_def)
    then show ?thesis by (simp add: column_sum_def float_sum_def m cell_at_nth[OF j])
  qed
  from rws total show ?thesis by blast
qed

section \<open>Objects that the views leave alone\<close>

lemma continues_refl: "continues h h"
  by (simp add: continues_def)

lemma continues_append: "continues h (h @ xs)"
  by (simp add: continues_def)

lemma continues_length: "continues h h' \<Longrightarrow> length h \<le> length h'"
proof -
  assume "continues h h'"
  then have "length (take (length h) h') = length h" by (simp add: continues_def)
  then show ?thesis by simp
qed

lemma continues_nth: "continues h h' \<Longrightarrow> b < length h \<Longrightarrow> h' ! b = h ! b"
  unfolding continues_def by (metis nth_take)

lemma continues_trans: "continues h h' \<Longrightarrow> continues h' h'' \<Longrightarrow> continues h h''"
proof -
  assume a: "continues h h'" and b: "continues h' h''"
  from a have "h = take (length h) h'" by (simp add: continues_def)
  also have "\<dots> = take (length h) (take (length h') h'')" using b by (simp add: continues_def)
  also have "\<dots> = take (length h) h''"
    using continues_length[OF a] by (simp add: min_def)
  finally show ?thesis by (simp add: continues_def)
qed

lemma ret_continues: "continues h (snd (ret x h))"
  by (simp add: ret_def continues_refl)

lemma lift_continues: "continues h (snd (lift m h))"
  by (simp add: lift_def continues_refl)

lemma deref_continues: "continues h (snd (deref a h))"
  by (simp add: deref_def continues_refl)

lemma new_continues: "continues h (snd (new f h))"
  by (simp add: new_def continues_append)

lemma hbind_continues:
  assumes p: "\<And>h. continues h (snd (p h))" and f: "\<And>x h. continues h (snd (f x h))"
  shows "continues h (snd (hbind p f h))"
proof (cases "p h")
  case (Pair r h')
  from p[of h] Pair have 1: "continues h h'" by simp
  show ?thesis
  proof (cases r)
    case (Inl e)
    with Pair 1 show ?thesis by (simp add: hbind_def)
  next
    case (Inr x)
    from f[of h' x] have "continues h' (snd (f x h'))" .
    with 1 have "continues h (snd (f x h'))" by (rule continues_trans)
    with Pair Inr show ?thesis by (simp add: hbind_def)
  qed
qed

lemmas continues_intros =
  hbind_continues ret_continues lift_continues deref_continues new_continues

lemma py_getattr_continues: "continues h (snd (py_getattr a n h))"
  unfolding py_getattr_def by (intro continues_intros)

lemma py_getitem_mask_continues: "continues h (snd (py_getitem_mask a m h))"
  unfolding py_getitem_mask_def by (intro continues_intros)

lemma py_groupby_agg_continues: "continues h (snd (py_groupby_agg agg keys c a h))"
  unfolding py_groupby_agg_def by (intro continues_intros)

lemma py_sort_values_continues: "continues h (snd (py_sort_values n a h))"
  unfolding py_sort_values_def by (intro continues_intros)

lemma py_reset_index_drop_continues: "continues h (snd (py_reset_index_drop a h))"
  unfolding py_reset_index_drop_def by (intro continues_intros)

lemmas py_continues =
  py_getattr_continues py_getitem_mask_continues py_groupby_agg_continues
  py_sort_values_continues py_reset_index_drop_continues

lemma co2_pipeline_eval_continues: "continues h (snd (co2_pipeline_eval a V c h))"
  unfolding co2_pipeline_eval_def by (intro continues_intros py_continues)

lemma scatterplot_pipeline_eval_continues:
  "continues h (snd (co2_vs_gdp_scatterplot_pipeline_eval a V h))"
  unfolding co2_vs_gdp_scatterplot_pipeline_eval_def by (intro continues_intros py_continues)

lemma bar_pipeline_eval_continues: "continues h (snd (co2_source_bar_pipeline_eval a V c h))"
  unfolding co2_source_bar_pipeline_eval_def by (intro continues_intros py_continues)

lemma evaluate_continues: "continues (objs s) (objs (evaluate s)) \<and> table (evaluate s) = table s"
proof -
  obtain v1 h1 where 1: "co2_pipeline_eval (table s) (year_slider s) (yaxis_co2 s) (objs s) = (v1, h1)"
    by (cases "co2_pipeline_eval (table s) (year_slider s) (yaxis_co2 s) (objs s)")
  obtain v2 h2 where 2: "co2_vs_gdp_scatterplot_pipeline_eval (table s) (year_slider s) h1 = (v2, h2)"
    by (cases "co2_vs_gdp_scatterplot_pipeline_eval (table s) (year_slider s) h1")
  obtain v3 h3 where 3: "co2_source_bar_pipeline_eval (table s) (year_slider s)
      (yaxis_co2_source s) h2 = (v3, h3)"
    by (cases "co2_source_bar_pipeline_eval (table s) (year_slider s) (yaxis_co2_source s) h2")
  from co2_pipeline_eval_continues[of "objs s" "table s" "year_slider s" "yaxis_co2 s"] 1
  have a: "continues (objs s) h1" by simp
  from scatterplot_pipeline_eval_continues[of h1 "table s" "year_slider s"] 2
  have b: "continues h1 h2" by simp
  from bar_pipeline_eval_continues[of h2 "table s" "year_slider s" "yaxis_co2_source s"] 3
  have c: "continues h2 h3" by simp
  from a b c have "continues (objs s) h3" by (blast intro: continues_trans)
  with 1 2 3 show ?thesis by (simp add: evaluate_def)
qed

lemma on_event_continues:
  "continues (objs s) (objs (on_event e s)) \<and> table (on_event e s) = table s"
proof (cases e)
  case (Year_slider v)
  with evaluate_continues[of "s\<lparr>year_slider := v\<rparr>"] show ?thesis by simp
next
  case (Yaxis_co2 c)
  with evaluate_continues[of "s\<lparr>yaxis_co2 := c\<rparr>"] show ?thesis by simp
next
  case (Yaxis_co2_source c)
  with evaluate_continues[of "s\<lparr>yaxis_co2_source := c\<rparr>"] show ?thesis by simp
qed

lemma run_continues: "continues (objs s) (objs (run es s)) \<and> table (run es s) = table s"
proof (induction es arbitrary: s)
  case Nil
  show ?case by (simp add: continues_refl)
next
  case (Cons e es)
  from on_event_continues[of s e] Cons.IH[of "on_event e s"] show ?case
    by (auto intro: continues_trans)
qed

text \<open>The views on the heap compute what the views on frames compute.\<close>

lemma co2_pipeline_eval_result:
  "case co2_pipeline_eval a V c h of
     (Inl e, h') \<Rightarrow> co2_pipeline (h ! a) V c = Inl e
   | (Inr b, h') \<Rightarrow> b < length h' \<and> co2_pipeline (h ! a) V c = Inr (h' ! b)"
  by (auto simp: co2_pipeline_eval_def co2_pipeline_def hbind_def py_getattr_def
      py_getitem_mask_def py_groupby_agg_def py_sort_values_def py_reset_index_drop_def
      deref_def lift_def new_def nth_append split: sum.splits)

lemma scatterplot_pipeline_eval_result:
  "case co2_vs_gdp_scatterplot_pipeline_eval a V h of
     (Inl e, h') \<Rightarrow> co2_vs_gdp_scatterplot_pipeline (h ! a) V = Inl e
   | (Inr b, h') \<Rightarrow> b < length h' \<and> co2_vs_gdp_scatterplot_pipeline (h ! a) V = Inr (h' ! b)"
  by (auto simp: co2_vs_gdp_scatterplot_pipeline_eval_def co2_vs_gdp_scatterplot_pipeline_def
      hbind_def py_getattr_def
      py_getitem_mask_def py_groupby_agg_def py_sort_values_def py_reset_index_drop_def
      deref_def lift_def new_def nth_append split: sum.splits)

lemma bar_pipeline_eval_result:
  "case co2_source_bar_pipeline_eval a V c h of
     (Inl e, h') \<Rightarrow> co2_source_bar_pipeline (h ! a) V c = Inl e
   | (Inr b, h') \<Rightarrow> b < length h' \<and> co2_source_bar_pipeline (h ! a) V c = Inr (h' ! b)"
  by (auto simp: co2_source_bar_pipeline_eval_def co2_source_bar_pipeline_def
      hbind_def py_getattr_def
      py_getitem_mask_def py_groupby_agg_def py_sort_values_def py_reset_index_drop_def
      deref_def lift_def new_def nth_append split: sum.splits)

text \<open>The cleaning cell computes \<open>clean\<close>, and its assignment writes into a frame.\<close>

lemma clean_cell_result:
  "a < length h \<Longrightarrow>
   clean_cell a h = (case clean (h ! a) of
                       Inl e \<Rightarrow> (Inl e, h @ [fillna 0 (h ! a)])
                     | Inr df \<Rightarrow> (Inr (length h), h @ [df]))"
  by (auto simp: clean_cell_def clean_def Let_def hbind_def py_fillna_def py_getitem_def
      py_setitem_def deref_def lift_def new_def ret_def nth_append split: sum.splits)

lemma py_setitem_writes:
  "\<not> continues [ex_raw, ex_clean]
       (snd (py_setitem 1 ''co2'' [Num 0, Num 0, Num 0, Num 0, Num 0] [ex_raw, ex_clean]))"
  by code_simp

section \<open>The cleaning step\<close>

text \<open>
  C1, as amended. On a table whose \<^verbatim>\<open>population\<close> and \<^verbatim>\<open>gdp\<close> columns are float
  columns, the cleaning step raises nothing and keeps every row, and in every row of
  the cleaned table
  \<^verbatim>\<open>gdp_per_capita\<close> is zero when the population is zero and the float quotient of
  gdp by population otherwise, which for finite values is the number \<open>gdp / population\<close>.
  It is the missing-value marker in exactly the rows where gdp and population are both
  infinite.
\<close>

theorem gdp_per_capita_guarded:
  assumes "wf_frame raw" and "float_column raw ''population''" and "float_column raw ''gdp''"
  shows "\<exists>df. clean raw = Inr df \<and> length (rows df) = length (rows raw) \<and>
           (\<forall>r \<in> set (rows df). \<exists>p g q.
              cell_at (columns df) r ''population'' = Some p
            \<and> cell_at (columns df) r ''gdp'' = Some g
            \<and> cell_at (columns df) r ''gdp_per_capita'' = Some q
            \<and> is_number p \<and> is_number g
            \<and> (p = Num 0 \<longrightarrow> q = Num 0)
            \<and> (p \<noteq> Num 0 \<longrightarrow> truediv g p = Inr q)
            \<and> (\<forall>a b. g = Num a \<and> p = Num b \<and> b \<noteq> 0 \<longrightarrow> q = Num (a / b))
            \<and> (q = NaN \<longleftrightarrow> is_Inf g \<and> is_Inf p))"
proof -
  from float_column_clean[OF assms] obtain df where cl: "clean raw = Inr df" by blast
  have "\<exists>p g q.
              cell_at (columns df) r ''population'' = Some p
            \<and> cell_at (columns df) r ''gdp'' = Some g
            \<and> cell_at (columns df) r ''gdp_per_capita'' = Some q
            \<and> is_number p \<and> is_number g
            \<and> (p = Num 0 \<longrightarrow> q = Num 0)
            \<and> (p \<noteq> Num 0 \<longrightarrow> truediv g p = Inr q)
            \<and> (\<forall>a b. g = Num a \<and> p = Num b \<and> b \<noteq> 0 \<longrightarrow> q = Num (a / b))
            \<and> (q = NaN \<longleftrightarrow> is_Inf g \<and> is_Inf p)"
    if "r \<in> set (rows df)" for r
  proof -
    from that obtain i where "i < length (rows df)" and r: "rows df ! i = r"
      by (auto simp: in_set_conv_nth)
    then have "i < length (rows raw)" by (simp add: clean_length[OF assms(1) cl])
    from clean_cells[OF assms(1) cl this] obtain ip ig p g q' where
      p: "p = fill 0 (rows raw ! i ! ip)" and g: "g = fill 0 (rows raw ! i ! ig)" and
      q': "truediv g p = Inr q'" and
      cp: "cell_at (columns df) r ''population'' = Some p" and
      cg: "cell_at (columns df) r ''gdp'' = Some g" and
      cq: "cell_at (columns df) r ''gdp_per_capita'' = Some (if p \<noteq> Num 0 then q' else Num 0)"
      unfolding r by blast
    have nn: "p \<noteq> NaN" "g \<noteq> NaN" unfolding p g by (simp_all add: fill_not_NaN)
    from truediv_numbers[OF q' nn(2) nn(1)] have num: "is_number p" "is_number g" by simp_all
    let ?q = "if p \<noteq> Num 0 then q' else Num 0"
    have a: "p = Num 0 \<longrightarrow> ?q = Num 0" by simp
    have b: "p \<noteq> Num 0 \<longrightarrow> truediv g p = Inr ?q" using q' by simp
    have c: "\<forall>a b. g = Num a \<and> p = Num b \<and> b \<noteq> 0 \<longrightarrow> ?q = Num (a / b)"
      using q' by auto
    have d: "?q = NaN \<longleftrightarrow> is_Inf g \<and> is_Inf p"
    proof (cases "p = Num 0")
      case True
      then show ?thesis by (simp add: is_Inf_def)
    next
      case False
      with truediv_NaN_iff[OF q' nn(2) nn(1)] show ?thesis by simp
    qed
    from cp cg cq num a b c d show ?thesis by blast
  qed
  with cl clean_length[OF assms(1) cl] show ?thesis by blast
qed


theorem gdp_per_capita_guarded_witness:
  "wf_frame ex_raw \<and> float_column ex_raw ''population'' \<and> float_column ex_raw ''gdp'' \<and>
   clean ex_raw = Inr ex_clean \<and> length (rows ex_clean) = length (rows ex_raw) \<and>
   list_all (\<lambda>r. \<exists>p g q.
              cell_at (columns ex_clean) r ''population'' = Some p
            \<and> cell_at (columns ex_clean) r ''gdp'' = Some g
            \<and> cell_at (columns ex_clean) r ''gdp_per_capita'' = Some q
            \<and> is_number p \<and> is_number g
            \<and> (p = Num 0 \<longrightarrow> q = Num 0)
            \<and> (p \<noteq> Num 0 \<longrightarrow> truediv g p = Inr q)
            \<and> (\<forall>a b. g = Num a \<and> p = Num b \<and> b \<noteq> 0 \<longrightarrow> q = Num (a / b))
            \<and> (q = NaN \<longleftrightarrow> is_Inf g \<and> is_Inf p))
     (rows ex_clean) \<and>
   cell_at (columns ex_clean) (rows ex_clean ! 0) ''gdp_per_capita'' = Some (Num 10) \<and>
   cell_at (columns ex_clean) (rows ex_clean ! 1) ''gdp_per_capita'' = Some (Num 0)"
proof -
  have h1: "wf_frame ex_raw" by code_simp
  have h2: "float_column ex_raw ''population''" by code_simp
  have h3: "float_column ex_raw ''gdp''" by code_simp
  have c: "clean ex_raw = Inr ex_clean" by code_simp
  have e: "cell_at (columns ex_clean) (rows ex_clean ! 0) ''gdp_per_capita'' = Some (Num 10)"
    "cell_at (columns ex_clean) (rows ex_clean ! 1) ''gdp_per_capita'' = Some (Num 0)"
    by code_simp+
  from gdp_per_capita_guarded[OF h1 h2 h3] c h1 h2 h3 e show ?thesis
    by (simp add: list_all_iff)
qed

text \<open>
  C1 as it was stated fails on a row whose gdp and population are both infinite: the
  input is a float table, the population is not zero, and the derived cell is the
  missing-value marker.
\<close>

theorem gdp_per_capita_undefined_counterexample:
  "wf_frame ex_inf_raw \<and> float_column ex_inf_raw ''population'' \<and>
   float_column ex_inf_raw ''gdp'' \<and> clean ex_inf_raw = Inr ex_inf_clean \<and>
   cell_at (columns ex_inf_clean) (rows ex_inf_clean ! 0) ''population'' = Some PosInf \<and>
   cell_at (columns ex_inf_clean) (rows ex_inf_clean ! 0) ''gdp'' = Some PosInf \<and>
   cell_at (columns ex_inf_clean) (rows ex_inf_clean ! 0) ''gdp_per_capita'' = Some NaN"
  by code_simp

text \<open>
  C2, as amended. The cleaning step keeps every row; under each column that the raw
  table had, a cell that was missing is zero and every other cell is what it was, so
  none of them is missing. The derived column is missing in exactly the rows where
  gdp and population are both infinite.
\<close>

theorem no_missing_after_cleaning:
  assumes "wf_frame raw" and "clean raw = Inr df"
  shows "length (rows df) = length (rows raw)
       \<and> set (columns df) = insert ''gdp_per_capita'' (set (columns raw))
       \<and> (\<forall>i < length (rows raw).
            (\<forall>name \<in> set (columns raw). name \<noteq> ''gdp_per_capita'' \<longrightarrow>
               (\<exists>c. cell_at (columns raw) (rows raw ! i) name = Some c
                  \<and> cell_at (columns df) (rows df ! i) name
                      = Some (if c = NaN then Num 0 else c)))
          \<and> (\<exists>p g q. cell_at (columns df) (rows df ! i) ''population'' = Some p
                \<and> cell_at (columns df) (rows df ! i) ''gdp'' = Some g
                \<and> cell_at (columns df) (rows df ! i) ''gdp_per_capita'' = Some q
                \<and> (q = NaN \<longleftrightarrow> is_Inf g \<and> is_Inf p)))"
proof -
  from clean_row[OF assms] obtain ip ig where
    len: "length (rows df) = length (rows raw)" and
    cols: "columns df = (case index_of ''gdp_per_capita'' (columns raw) of
             None \<Rightarrow> columns raw @ [''gdp_per_capita''] | Some k \<Rightarrow> columns raw)" and
    rws: "\<forall>i < length (rows raw). \<exists>q.
            truediv (fill 0 (rows raw ! i ! ig)) (fill 0 (rows raw ! i ! ip)) = Inr q
          \<and> rows df ! i = (case index_of ''gdp_per_capita'' (columns raw) of
                None \<Rightarrow> map (fill 0) (rows raw ! i)
                         @ [if fill 0 (rows raw ! i ! ip) \<noteq> Num 0 then q else Num 0]
              | Some k \<Rightarrow> (map (fill 0) (rows raw ! i))
                         [k := if fill 0 (rows raw ! i ! ip) \<noteq> Num 0 then q else Num 0])"
    by blast
  have labels: "set (columns df) = insert ''gdp_per_capita'' (set (columns raw))"
  proof (cases "index_of ''gdp_per_capita'' (columns raw)")
    case None
    with cols show ?thesis by simp
  next
    case (Some k)
    then have "''gdp_per_capita'' \<in> set (columns raw)"
      using index_of_None[of "''gdp_per_capita''" "columns raw"] by simp
    with Some cols show ?thesis by auto
  qed
  have old: "\<exists>c. cell_at (columns raw) (rows raw ! i) name = Some c
                  \<and> cell_at (columns df) (rows df ! i) name = Some (if c = NaN then Num 0 else c)"
    if i: "i < length (rows raw)" and n: "name \<in> set (columns raw)"
      and ne: "name \<noteq> ''gdp_per_capita''" for i name
  proof -
    from n obtain j where j: "index_of name (columns raw) = Some j"
      by (cases "index_of name (columns raw)") (auto simp: index_of_None)
    from rws i obtain v where
      row: "rows df ! i = (case index_of ''gdp_per_capita'' (columns raw) of
                None \<Rightarrow> map (fill 0) (rows raw ! i) @ [v]
              | Some k \<Rightarrow> (map (fill 0) (rows raw ! i))[k := v])"
      by blast
    let ?r = "map (fill 0) (rows raw ! i)"
    from assms(1) i have l: "length ?r = length (columns raw)" by (simp add: wf_frame_def)
    have "cell_at (columns df) (rows df ! i) name = Some (?r ! j)"
      unfolding cols row by (rule cell_at_put_other[OF l j ne])
    moreover from index_of_Some[OF j] l have "?r ! j = fill 0 (rows raw ! i ! j)" by simp
    ultimately show ?thesis by (simp add: cell_at_nth[OF j] fill_eq)
  qed
  have new: "\<exists>p g q. cell_at (columns df) (rows df ! i) ''population'' = Some p
                \<and> cell_at (columns df) (rows df ! i) ''gdp'' = Some g
                \<and> cell_at (columns df) (rows df ! i) ''gdp_per_capita'' = Some q
                \<and> (q = NaN \<longleftrightarrow> is_Inf g \<and> is_Inf p)"
    if i: "i < length (rows raw)" for i
  proof -
    from clean_cells[OF assms i] obtain ip ig p g q' where
      p: "p = fill 0 (rows raw ! i ! ip)" and g: "g = fill 0 (rows raw ! i ! ig)" and
      q': "truediv g p = Inr q'" and
      cp: "cell_at (columns df) (rows df ! i) ''population'' = Some p" and
      cg: "cell_at (columns df) (rows df ! i) ''gdp'' = Some g" and
      cq: "cell_at (columns df) (rows df ! i) ''gdp_per_capita''
             = Some (if p \<noteq> Num 0 then q' else Num 0)"
      by blast
    have nn: "p \<noteq> NaN" "g \<noteq> NaN" unfolding p g by (simp_all add: fill_not_NaN)
    have "(if p \<noteq> Num 0 then q' else Num 0) = NaN \<longleftrightarrow> is_Inf g \<and> is_Inf p"
    proof (cases "p = Num 0")
      case True
      then show ?thesis by (simp add: is_Inf_def)
    next
      case False
      with truediv_NaN_iff[OF q' nn(2) nn(1)] show ?thesis by simp
    qed
    with cp cg cq show ?thesis by blast
  qed
  from len labels old new show ?thesis by blast
qed

theorem no_missing_after_cleaning_witness:
  "wf_frame ex_raw \<and> clean ex_raw = Inr ex_clean \<and>
   length (rows ex_clean) = length (rows ex_raw) \<and>
   cell_at (columns ex_raw) (rows ex_raw ! 2) ''oil_co2'' = Some NaN \<and>
   cell_at (columns ex_clean) (rows ex_clean ! 2) ''oil_co2'' = Some (Num 0) \<and>
   cell_at (columns ex_raw) (rows ex_raw ! 2) ''coal_co2'' = Some (Num 4) \<and>
   cell_at (columns ex_clean) (rows ex_clean ! 2) ''coal_co2'' = Some (Num 4)"
proof -
  have h1: "wf_frame ex_raw" by code_simp
  have h2: "clean ex_raw = Inr ex_clean" by code_simp
  have i: "(2::nat) < length (rows ex_raw)" by code_simp
  have n: "''oil_co2'' \<in> set (columns ex_raw)" "''oil_co2'' \<noteq> ''gdp_per_capita''"
    "''coal_co2'' \<in> set (columns ex_raw)" "''coal_co2'' \<noteq> ''gdp_per_capita''"
    by code_simp+
  have r: "cell_at (columns ex_raw) (rows ex_raw ! 2) ''oil_co2'' = Some NaN"
    "cell_at (columns ex_raw) (rows ex_raw ! 2) ''coal_co2'' = Some (Num 4)"
    by code_simp+
  note t = no_missing_after_cleaning[OF h1 h2]
  from t have l: "length (rows ex_clean) = length (rows ex_raw)" by blast
  from t i n(1,2) r(1)
  have a: "cell_at (columns ex_clean) (rows ex_clean ! 2) ''oil_co2'' = Some (Num 0)"
    by fastforce
  from t i n(3,4) r(2)
  have b: "cell_at (columns ex_clean) (rows ex_clean ! 2) ''coal_co2'' = Some (Num 4)"
    by fastforce
  from h1 h2 l r a b show ?thesis by blast
qed

text \<open>
  C2 as it was stated fails on the same table: after cleaning, the first row holds the
  missing-value marker.
\<close>

theorem missing_after_cleaning_counterexample:
  "wf_frame ex_inf_raw \<and> clean ex_inf_raw = Inr ex_inf_clean \<and>
   NaN \<in> set (rows ex_inf_clean ! 0)"
  by code_simp

text \<open>
  C10. The ratio is computed from the filled values: a row whose raw \<^verbatim>\<open>gdp\<close> cell was
  missing gets \<^verbatim>\<open>gdp_per_capita\<close> zero, whatever its population. The row of the
  example below has population 40.
\<close>

theorem missing_gdp_gives_zero:
  assumes "wf_frame raw" and "clean raw = Inr df" and "i < length (rows raw)"
    and "cell_at (columns raw) (rows raw ! i) ''gdp'' = Some NaN"
  shows "cell_at (columns df) (rows df ! i) ''gdp_per_capita'' = Some (Num 0)"
proof -
  from clean_cells[OF assms(1-3)] obtain ip ig p g q where
    ip: "index_of ''population'' (columns raw) = Some ip" and
    ig: "index_of ''gdp'' (columns raw) = Some ig" and
    p: "p = fill 0 (rows raw ! i ! ip)" and
    g: "g = fill 0 (rows raw ! i ! ig)" and
    q: "truediv g p = Inr q" and
    c: "cell_at (columns df) (rows df ! i) ''gdp_per_capita''
          = Some (if p \<noteq> Num 0 then q else Num 0)"
    by blast
  from assms(4) cell_at_nth[OF ig] have "rows raw ! i ! ig = NaN" by simp
  with g have g0: "g = Num 0" by simp
  have "p \<noteq> NaN" unfolding p by (simp add: fill_not_NaN)
  with q g0 have "p \<noteq> Num 0 \<longrightarrow> q = Num 0" by (cases p) (auto split: if_splits)
  with c show ?thesis by auto
qed

theorem missing_gdp_gives_zero_witness:
  "wf_frame ex_raw \<and> clean ex_raw = Inr ex_clean \<and> (2::nat) < length (rows ex_raw) \<and>
   cell_at (columns ex_raw) (rows ex_raw ! 2) ''gdp'' = Some NaN \<and>
   cell_at (columns ex_raw) (rows ex_raw ! 2) ''population'' = Some (Num 40) \<and>
   cell_at (columns ex_clean) (rows ex_clean ! 2) ''gdp_per_capita'' = Some (Num 0)"
proof -
  have h1: "wf_frame ex_raw" by code_simp
  have h2: "clean ex_raw = Inr ex_clean" by code_simp
  have h3: "(2::nat) < length (rows ex_raw)" by code_simp
  have h4: "cell_at (columns ex_raw) (rows ex_raw ! 2) ''gdp'' = Some NaN" by code_simp
  have h5: "cell_at (columns ex_raw) (rows ex_raw ! 2) ''population'' = Some (Num 40)" by code_simp
  from missing_gdp_gives_zero[OF h1 h2 h3 h4] h1 h2 h3 h4 h5 show ?thesis by simp
qed

text \<open>
  C6, as amended. When every non-missing value of the raw \<^verbatim>\<open>population\<close> and
  \<^verbatim>\<open>gdp\<close> columns is non-negative, the cleaned table has the rows of the raw one,
  every row has a non-negative population, and its \<^verbatim>\<open>gdp_per_capita\<close> is non-negative unless population and gdp
  are both plus infinity, where it is the missing-value marker.
\<close>

theorem population_and_ratio_nonneg:
  assumes "wf_frame raw" and "clean raw = Inr df"
    and "nonneg_column raw ''population''" and "nonneg_column raw ''gdp''"
  shows "length (rows df) = length (rows raw) \<and>
         (\<forall>r \<in> set (rows df). \<exists>p g q.
           cell_at (columns df) r ''population'' = Some p
         \<and> cell_at (columns df) r ''gdp'' = Some g
         \<and> cell_at (columns df) r ''gdp_per_capita'' = Some q
         \<and> cell_nonneg p
         \<and> (if p = PosInf \<and> g = PosInf then q = NaN else cell_nonneg q))"
proof (intro conjI ballI)
  show "length (rows df) = length (rows raw)" by (rule clean_length[OF assms(1,2)])
next
  fix r assume "r \<in> set (rows df)"
  then obtain i where "i < length (rows df)" and r: "rows df ! i = r"
    by (auto simp: in_set_conv_nth)
  then have i: "i < length (rows raw)" by (simp add: clean_length[OF assms(1,2)])
  from clean_cells[OF assms(1,2) i] obtain ip ig p g q' where
    ip: "index_of ''population'' (columns raw) = Some ip" and
    ig: "index_of ''gdp'' (columns raw) = Some ig" and
    p: "p = fill 0 (rows raw ! i ! ip)" and g: "g = fill 0 (rows raw ! i ! ig)" and
    q': "truediv g p = Inr q'" and
    cp: "cell_at (columns df) r ''population'' = Some p" and
    cg: "cell_at (columns df) r ''gdp'' = Some g" and
    cq: "cell_at (columns df) r ''gdp_per_capita'' = Some (if p \<noteq> Num 0 then q' else Num 0)"
    unfolding r by blast
  from i have mem: "rows raw ! i \<in> set (rows raw)" by simp
  have nonneg: "cell_nonneg (fill 0 (rows raw ! i ! j))"
    if "nonneg_column raw n" "index_of n (columns raw) = Some j" for n j
    using that(1) mem cell_at_nth[OF that(2), of "rows raw ! i"]
    by (cases "rows raw ! i ! j") (auto simp: nonneg_column_def)
  from nonneg[OF assms(3) ip] have p0: "cell_nonneg p" by (simp add: p)
  from nonneg[OF assms(4) ig] have g0: "cell_nonneg g" by (simp add: g)
  let ?q = "if p \<noteq> Num 0 then q' else Num 0"
  from p0 g0 q' have "if p = PosInf \<and> g = PosInf then ?q = NaN else cell_nonneg ?q"
    by (cases p; cases g) (auto split: if_splits)
  with cp cg cq p0 show "\<exists>p g q.
           cell_at (columns df) r ''population'' = Some p
         \<and> cell_at (columns df) r ''gdp'' = Some g
         \<and> cell_at (columns df) r ''gdp_per_capita'' = Some q
         \<and> cell_nonneg p
         \<and> (if p = PosInf \<and> g = PosInf then q = NaN else cell_nonneg q)"
    by blast
qed

theorem population_and_ratio_nonneg_witness:
  "wf_frame ex_raw \<and> clean ex_raw = Inr ex_clean \<and>
   nonneg_column ex_raw ''population'' \<and> nonneg_column ex_raw ''gdp'' \<and>
   length (rows ex_clean) = length (rows ex_raw) \<and>
   list_all (\<lambda>r. \<exists>p g q.
           cell_at (columns ex_clean) r ''population'' = Some p
         \<and> cell_at (columns ex_clean) r ''gdp'' = Some g
         \<and> cell_at (columns ex_clean) r ''gdp_per_capita'' = Some q
         \<and> cell_nonneg p
         \<and> (if p = PosInf \<and> g = PosInf then q = NaN else cell_nonneg q))
     (rows ex_clean)"
proof -
  have h1: "wf_frame ex_raw" by code_simp
  have h2: "clean ex_raw = Inr ex_clean" by code_simp
  have h3: "nonneg_column ex_raw ''population''" by code_simp
  have h4: "nonneg_column ex_raw ''gdp''" by code_simp
  from population_and_ratio_nonneg[OF h1 h2 h3 h4] h1 h2 h3 h4 show ?thesis
    by (simp add: list_all_iff)
qed

text \<open>
  C6 as it was stated fails on the table with the infinite row: its raw population and
  gdp are non-negative, and the derived cell is the missing-value marker, which is not
  non-negative.
\<close>

theorem ratio_nonneg_counterexample:
  "wf_frame ex_inf_raw \<and> nonneg_column ex_inf_raw ''population'' \<and>
   nonneg_column ex_inf_raw ''gdp'' \<and> clean ex_inf_raw = Inr ex_inf_clean \<and>
   cell_at (columns ex_inf_clean) (rows ex_inf_clean ! 0) ''gdp_per_capita'' = Some NaN \<and>
   \<not> cell_nonneg NaN"
  by code_simp

text \<open>
  C7. On a raw table without a \<^verbatim>\<open>gdp_per_capita\<close> column, the cleaning step appends
  exactly that column, keeps the number of rows, replaces each missing cell of the
  columns that were there by zero and leaves every other cell of them as it was.
\<close>

theorem cleaning_frame:
  assumes "wf_frame raw" and "''gdp_per_capita'' \<notin> set (columns raw)"
    and "clean raw = Inr df"
  shows "columns df = columns raw @ [''gdp_per_capita''] \<and>
         length (rows df) = length (rows raw) \<and>
         (\<forall>i < length (rows raw).
            length (rows df ! i) = Suc (length (rows raw ! i)) \<and>
            (\<forall>j < length (rows raw ! i).
               rows df ! i ! j = (if rows raw ! i ! j = NaN then Num 0 else rows raw ! i ! j)))"
proof -
  from assms(2) have none: "index_of ''gdp_per_capita'' (columns raw) = None"
    by (simp add: index_of_None)
  from clean_row[OF assms(1,3)] obtain ip ig where
    len: "length (rows df) = length (rows raw)" and
    cols0: "columns df = (case index_of ''gdp_per_capita'' (columns raw) of
             None \<Rightarrow> columns raw @ [''gdp_per_capita''] | Some k \<Rightarrow> columns raw)" and
    rws0: "\<forall>i < length (rows raw). \<exists>q.
            truediv (fill 0 (rows raw ! i ! ig)) (fill 0 (rows raw ! i ! ip)) = Inr q
          \<and> rows df ! i = (case index_of ''gdp_per_capita'' (columns raw) of
                None \<Rightarrow> map (fill 0) (rows raw ! i)
                         @ [if fill 0 (rows raw ! i ! ip) \<noteq> Num 0 then q else Num 0]
              | Some k \<Rightarrow> (map (fill 0) (rows raw ! i))
                         [k := if fill 0 (rows raw ! i ! ip) \<noteq> Num 0 then q else Num 0])"
    by blast
  from cols0 none have cols: "columns df = columns raw @ [''gdp_per_capita'']" by simp
  from rws0 none have rws: "\<forall>i < length (rows raw). \<exists>v.
          rows df ! i = map (fill 0) (rows raw ! i) @ [v]"
    by fastforce
  have "length (rows df ! i) = Suc (length (rows raw ! i)) \<and>
        (\<forall>j < length (rows raw ! i).
           rows df ! i ! j = (if rows raw ! i ! j = NaN then Num 0 else rows raw ! i ! j))"
    if i: "i < length (rows raw)" for i
  proof -
    from rws i obtain v where row: "rows df ! i = map (fill 0) (rows raw ! i) @ [v]" by blast
    then show ?thesis by (simp add: nth_append fill_eq)
  qed
  with len cols show ?thesis by blast
qed

theorem cleaning_frame_witness:
  "wf_frame ex_raw \<and> ''gdp_per_capita'' \<notin> set (columns ex_raw) \<and> clean ex_raw = Inr ex_clean \<and>
   columns ex_clean = columns ex_raw @ [''gdp_per_capita''] \<and>
   length (rows ex_clean) = length (rows ex_raw) \<and>
   rows ex_clean ! 4 ! 2 = Str ''FRA'' \<and> rows ex_raw ! 4 ! 2 = Str ''FRA'' \<and>
   rows ex_clean ! 0 ! 2 = Num 0 \<and> rows ex_raw ! 0 ! 2 = NaN"
proof -
  have h1: "wf_frame ex_raw" by code_simp
  have h2: "''gdp_per_capita'' \<notin> set (columns ex_raw)" by code_simp
  have h3: "clean ex_raw = Inr ex_clean" by code_simp
  have r: "rows ex_raw ! 4 ! 2 = Str ''FRA''" "rows ex_raw ! 0 ! 2 = NaN"
    "(4::nat) < length (rows ex_raw)" "(0::nat) < length (rows ex_raw)"
    "(2::nat) < length (rows ex_raw ! 4)" "(2::nat) < length (rows ex_raw ! 0)"
    by code_simp+
  from cleaning_frame[OF h1 h2 h3] h1 h2 h3 r show ?thesis by simp
qed

section \<open>The views\<close>

text \<open>
  C3. For every value \<open>V\<close> of the year slider, every row of the time-series view
  \<^verbatim>\<open>co2_pipeline\<close> has a year that is at most \<open>V\<close>, a number at most \<open>V\<close> or minus
  infinity, and a country that is one of the eight names of \<^verbatim>\<open>continents\<close>.
\<close>

theorem co2_pipeline_rows:
  assumes "co2_pipeline df V c = Inr v"
  shows "\<forall>r \<in> set (rows v). \<exists>c k.
           cell_at (columns v) r ''year'' = Some c
         \<and> ((\<exists>y. c = Num y \<and> y \<le> of_int V) \<or> c = NegInf)
         \<and> cell_at (columns v) r ''country'' = Some (Str k) \<and> k \<in> set continents"
proof -
  from assms obtain iy ic m1 g where
    iy: "index_of ''year'' (columns df) = Some iy" and
    ic: "index_of ''country'' (columns df) = Some ic" and
    m1: "le_scalar (map (\<lambda>r. r ! iy) (rows df)) (of_int V) = Inr m1" and
    g: "groupby_agg mean_agg [''country'', ''year''] c
          (getitem_mask df (and_mask m1 (isin (map (\<lambda>r. r ! ic) (rows df)) continents))) = Inr g" and
    sv: "sort_values ''year'' g = Inr v"
    by (auto simp: co2_pipeline_def ebind_eq_Inr getattr_eq_Inr)
  let ?P = "\<lambda>r. le_cell (r ! iy) (of_int V) = Inr True \<and> r ! ic \<in> Str ` set continents"
  have F: "getitem_mask df (and_mask m1 (isin (map (\<lambda>r. r ! ic) (rows df)) continents))
             = \<lparr>columns = columns df, rows = filter ?P (rows df)\<rparr>"
    by (simp add: le_scalar_map[OF m1] isin_map and_mask_map getitem_mask_map)
  from view_rows[OF g[unfolded F] sv] obtain ks j where
    ks: "each (index_or_raise (columns df)) [''country'', ''year''] = Inr ks" and
    cols: "columns v = [''country'', ''year''] @ [c]" and
    rws0: "\<forall>row \<in> set (rows v). \<exists>r \<in> set (rows df). \<exists>x.
             ?P r \<and> NaN \<notin> set (map (\<lambda>i. r ! i) ks) \<and> row = map (\<lambda>i. r ! i) ks @ [x]
           \<and> mean_agg (map (\<lambda>r'. r' ! j)
                 (filter (\<lambda>r'. map (\<lambda>i. r' ! i) ks = map (\<lambda>i. r ! i) ks)
                    (filter (\<lambda>r'. NaN \<notin> set (map (\<lambda>i. r' ! i) ks)) (filter ?P (rows df))))) = Inr x"
    by blast
  from ks[unfolded each_two] ic iy have "ks = [ic, iy]" by auto
  with rws0 have
    rws: "\<forall>row \<in> set (rows v). \<exists>r \<in> set (rows df). \<exists>x. ?P r \<and> row = [r ! ic, r ! iy, x]"
    by fastforce
  show ?thesis
  proof
    fix row assume "row \<in> set (rows v)"
    with rws obtain r x where P: "?P r" and row: "row = [r ! ic, r ! iy, x]" by blast
    from P obtain k where "(\<exists>y. r ! iy = Num y \<and> y \<le> of_int V) \<or> r ! iy = NegInf"
      "r ! ic = Str k" "k \<in> set continents"
      by (auto simp: le_cell_True)
    then show "\<exists>c k. cell_at (columns v) row ''year'' = Some c
         \<and> ((\<exists>y. c = Num y \<and> y \<le> of_int V) \<or> c = NegInf)
         \<and> cell_at (columns v) row ''country'' = Some (Str k) \<and> k \<in> set continents"
      by (simp add: cols row cell_at_def)
  qed
qed

theorem co2_pipeline_rows_witness:
  "co2_pipeline ex_clean 1850 ''co2'' = Inr ex_co2_view \<and>
   list_all (\<lambda>r. \<exists>c k.
           cell_at (columns ex_co2_view) r ''year'' = Some c
         \<and> ((\<exists>y. c = Num y \<and> y \<le> of_int 1850) \<or> c = NegInf)
         \<and> cell_at (columns ex_co2_view) r ''country'' = Some (Str k) \<and> k \<in> set continents)
     (rows ex_co2_view)"
proof -
  have h: "co2_pipeline ex_clean 1850 ''co2'' = Inr ex_co2_view" by code_simp
  from co2_pipeline_rows[OF h] h show ?thesis by (simp add: list_all_iff)
qed

text \<open>
  C4. For every value \<open>Y\<close> of the year slider, every row of the cross-section view
  \<^verbatim>\<open>co2_vs_gdp_scatterplot_pipeline\<close> has the year \<open>Y\<close> and a country cell that is
  none of the names of \<^verbatim>\<open>continents\<close>.
\<close>

theorem scatterplot_pipeline_rows:
  assumes "co2_vs_gdp_scatterplot_pipeline df Y = Inr v"
  shows "\<forall>r \<in> set (rows v). \<exists>k.
           cell_at (columns v) r ''year'' = Some (Num (of_int Y))
         \<and> cell_at (columns v) r ''country'' = Some k \<and> k \<notin> Str ` set continents"
proof -
  from assms obtain iy ic g where
    iy: "index_of ''year'' (columns df) = Some iy" and
    ic: "index_of ''country'' (columns df) = Some ic" and
    g: "groupby_agg mean_agg [''country'', ''year'', ''gdp_per_capita''] ''co2''
          (getitem_mask df (and_mask (eq_scalar (map (\<lambda>r. r ! iy) (rows df)) (of_int Y))
             (not_mask (isin (map (\<lambda>r. r ! ic) (rows df)) continents)))) = Inr g" and
    sv: "sort_values ''year'' g = Inr v"
    by (auto simp: co2_vs_gdp_scatterplot_pipeline_def ebind_eq_Inr getattr_eq_Inr)
  let ?P = "\<lambda>r. r ! iy = Num (of_int Y) \<and> r ! ic \<notin> Str ` set continents"
  have F: "getitem_mask df (and_mask (eq_scalar (map (\<lambda>r. r ! iy) (rows df)) (of_int Y))
             (not_mask (isin (map (\<lambda>r. r ! ic) (rows df)) continents)))
             = \<lparr>columns = columns df, rows = filter ?P (rows df)\<rparr>"
    by (simp add: eq_scalar_map isin_map not_mask_map and_mask_map getitem_mask_map)
  from view_rows[OF g[unfolded F] sv] obtain ks j where
    ks: "each (index_or_raise (columns df)) [''country'', ''year'', ''gdp_per_capita''] = Inr ks" and
    cols: "columns v = [''country'', ''year'', ''gdp_per_capita''] @ [''co2'']" and
    rws0: "\<forall>row \<in> set (rows v). \<exists>r \<in> set (rows df). \<exists>x.
             ?P r \<and> NaN \<notin> set (map (\<lambda>i. r ! i) ks) \<and> row = map (\<lambda>i. r ! i) ks @ [x]
           \<and> mean_agg (map (\<lambda>r'. r' ! j)
                 (filter (\<lambda>r'. map (\<lambda>i. r' ! i) ks = map (\<lambda>i. r ! i) ks)
                    (filter (\<lambda>r'. NaN \<notin> set (map (\<lambda>i. r' ! i) ks)) (filter ?P (rows df))))) = Inr x"
    by blast
  from ks[unfolded each_three] ic iy obtain ig where "ks = [ic, iy, ig]" by auto
  with rws0 have
    rws: "\<forall>row \<in> set (rows v). \<exists>r \<in> set (rows df). \<exists>z x. ?P r \<and> row = [r ! ic, r ! iy, z, x]"
    by fastforce
  show ?thesis
  proof
    fix row assume "row \<in> set (rows v)"
    with rws obtain r z x where P: "?P r" and row: "row = [r ! ic, r ! iy, z, x]" by blast
    then show "\<exists>k. cell_at (columns v) row ''year'' = Some (Num (of_int Y))
         \<and> cell_at (columns v) row ''country'' = Some k \<and> k \<notin> Str ` set continents"
      by (simp add: cols cell_at_def)
  qed
qed

theorem scatterplot_pipeline_rows_witness:
  "co2_vs_gdp_scatterplot_pipeline ex_clean 1850 = Inr ex_scatter_view \<and>
   list_all (\<lambda>r. \<exists>k.
           cell_at (columns ex_scatter_view) r ''year'' = Some (Num (of_int 1850))
         \<and> cell_at (columns ex_scatter_view) r ''country'' = Some k \<and> k \<notin> Str ` set continents)
     (rows ex_scatter_view)"
proof -
  have h: "co2_vs_gdp_scatterplot_pipeline ex_clean 1850 = Inr ex_scatter_view" by code_simp
  from scatterplot_pipeline_rows[OF h] h show ?thesis by (simp add: list_all_iff)
qed

text \<open>
  C9. For every year \<open>Y\<close> and every float column \<open>c\<close>, each row of the bar view has a
  country from the seven names of \<^verbatim>\<open>continents_excl_world\<close>, which leaves out
  \<^verbatim>\<open>World\<close> where \<^verbatim>\<open>continents\<close> has it, and its value is the sum of \<open>c\<close> over the
  rows of the table with that year and that country. In the example the sum is 16
  where the mean would be 8.
\<close>

theorem bar_view_sums:
  assumes "float_column df c" and "co2_source_bar_pipeline df Y c = Inr v"
  shows "length continents_excl_world = 7 \<and> ''World'' \<notin> set continents_excl_world
       \<and> ''World'' \<in> set continents
       \<and> columns v = [''year'', ''country'', c]
       \<and> (\<forall>r \<in> set (rows v). \<exists>k \<in> set continents_excl_world.
            r = [Num (of_int Y), Str k, column_sum df c (matching_rows df (of_int Y) k)])"
proof -
  from bar_view_rows[OF assms(2)] have cols: "columns v = [''year'', ''country'', c]" by blast
  have lists: "length continents_excl_world = 7" "''World'' \<notin> set continents_excl_world"
    "''World'' \<in> set continents"
    by (simp_all add: continents_excl_world_def continents_def)
  from bar_view_values[OF assms] lists cols show ?thesis by simp
qed

theorem bar_view_sums_witness:
  "float_column ex_clean ''coal_co2'' \<and>
   co2_source_bar_pipeline ex_clean 1850 ''coal_co2'' = Inr ex_bar_view \<and>
   rows ex_bar_view = [[Num 1850, Str ''Asia'', Num 16]] \<and>
   column_sum ex_clean ''coal_co2'' (matching_rows ex_clean 1850 ''Asia'') = Num 16 \<and>
   mean_agg [Num 12, Num 4] = Inr (Num 8) \<and>
   list_all (\<lambda>r. \<exists>k \<in> set continents_excl_world.
            r = [Num (of_int 1850), Str k,
                 column_sum ex_clean ''coal_co2'' (matching_rows ex_clean (of_int 1850) k)])
     (rows ex_bar_view)"
proof -
  have h1: "float_column ex_clean ''coal_co2''" by code_simp
  have h2: "co2_source_bar_pipeline ex_clean 1850 ''coal_co2'' = Inr ex_bar_view" by code_simp
  have h3: "rows ex_bar_view = [[Num 1850, Str ''Asia'', Num 16]]" by code_simp
  have h4: "column_sum ex_clean ''coal_co2'' (matching_rows ex_clean 1850 ''Asia'') = Num 16"
    by code_simp
  have h5: "mean_agg [Num 12, Num 4] = Inr (Num 8)" by code_simp
  from bar_view_sums[OF h1 h2] have "list_all (\<lambda>r. \<exists>k \<in> set continents_excl_world.
            r = [Num (of_int 1850), Str k,
                 column_sum ex_clean ''coal_co2'' (matching_rows ex_clean (of_int 1850) k)])
     (rows ex_bar_view)"
    by (simp add: list_all_iff)
  with h1 h2 h3 h4 h5 show ?thesis by blast
qed

text \<open>
  C5, as amended. The bar view is a per-region aggregate of one sub-quantity, the
  column that the button group selects among \<^verbatim>\<open>coal_co2\<close>, \<^verbatim>\<open>oil_co2\<close> and
  \<^verbatim>\<open>gas_co2\<close>, for the selected year. Its columns are the year, the country and that
  column, and the other two are not in it. Each row is for the selected year and one of
  the seven regions of \<^verbatim>\<open>continents_excl_world\<close>, and its value is the sum of the
  selected column over the rows of the table with that year and that region. No region
  has two rows, and every region that has a row in the table for that year has its row
  in the view.
\<close>

theorem bar_view_one_source:
  assumes "c \<in> set yaxis_co2_source_options" and "float_column df c"
    and "co2_source_bar_pipeline df Y c = Inr v"
  shows "columns v = [''year'', ''country'', c]
       \<and> (\<forall>c' \<in> set yaxis_co2_source_options. c' \<noteq> c \<longrightarrow> c' \<notin> set (columns v))
       \<and> (\<forall>r \<in> set (rows v). \<exists>k \<in> set continents_excl_world.
            r = [Num (of_int Y), Str k, column_sum df c (matching_rows df (of_int Y) k)])
       \<and> distinct (map (\<lambda>r. cell_at (columns v) r ''country'') (rows v))
       \<and> (\<forall>k \<in> set continents_excl_world. matching_rows df (of_int Y) k \<noteq> [] \<longrightarrow>
            (\<exists>r \<in> set (rows v). cell_at (columns v) r ''country'' = Some (Str k)))"
proof -
  from bar_view_rows[OF assms(3)] obtain iy ic j where
    iy: "index_of ''year'' (columns df) = Some iy" and
    ic: "index_of ''country'' (columns df) = Some ic" and
    cols: "columns v = [''year'', ''country'', c]" and
    c: "c \<noteq> ''year''" "c \<noteq> ''country''" and
    d: "distinct (map butlast (rows v))" and
    rws: "\<forall>row \<in> set (rows v). \<exists>k \<in> set continents_excl_world. \<exists>x.
                 row = [Num (of_int Y), Str k, x]
               \<and> sum_agg (map (\<lambda>r. r ! j)
                   (filter (\<lambda>r. r ! iy = Num (of_int Y) \<and> r ! ic = Str k) (rows df))) = Inr x" and
    all: "\<forall>k \<in> set continents_excl_world. \<forall>r \<in> set (rows df).
                 r ! iy = Num (of_int Y) \<and> r ! ic = Str k \<longrightarrow>
                 (\<exists>row \<in> set (rows v). butlast row = [Num (of_int Y), Str k])"
    by blast
  have others: "\<forall>c' \<in> set yaxis_co2_source_options. c' \<noteq> c \<longrightarrow> c' \<notin> set (columns v)"
    by (auto simp: cols yaxis_co2_source_options_def)
  have shape: "\<exists>k x. row = [Num (of_int Y), Str k, x]" if "row \<in> set (rows v)" for row
    using rws that by blast
  have one: "distinct (map (\<lambda>r. cell_at (columns v) r ''country'') (rows v))"
  proof (rule distinct_map_finer[OF d])
    fix x y assume "x \<in> set (rows v)" "y \<in> set (rows v)"
      and eq: "cell_at (columns v) x ''country'' = cell_at (columns v) y ''country''"
    from shape[OF this(1)] shape[OF this(2)] obtain k x' k' y' where
      "x = [Num (of_int Y), Str k, x']" "y = [Num (of_int Y), Str k', y']" by blast
    with eq show "butlast x = butlast y" by (simp add: cols cell_at_def)
  qed
  have every: "\<exists>r \<in> set (rows v). cell_at (columns v) r ''country'' = Some (Str k)"
    if k: "k \<in> set continents_excl_world" and ne: "matching_rows df (of_int Y) k \<noteq> []" for k
  proof -
    from ne obtain r where "r \<in> set (matching_rows df (of_int Y) k)"
      by (cases "matching_rows df (of_int Y) k") auto
    then have "r \<in> set (rows df)" "r ! iy = Num (of_int Y)" "r ! ic = Str k"
      by (auto simp: matching_rows_def cell_at_nth[OF iy] cell_at_nth[OF ic])
    with all k obtain row where row: "row \<in> set (rows v)"
      "butlast row = [Num (of_int Y), Str k]" by blast
    from shape[OF row(1)] row(2) obtain x where "row = [Num (of_int Y), Str k, x]" by auto
    with row(1) show ?thesis by (intro bexI[of _ row]) (simp_all add: cols cell_at_def)
  qed
  from cols others bar_view_values[OF assms(2,3)] one every show ?thesis by blast
qed

theorem bar_view_one_source_witness:
  "''coal_co2'' \<in> set yaxis_co2_source_options \<and> float_column ex_regions ''coal_co2'' \<and>
   co2_source_bar_pipeline ex_regions 1900 ''coal_co2'' = Inr ex_regions_bar_view \<and>
   rows ex_regions_bar_view = [[Num 1900, Str ''Asia'', Num 16], [Num 1900, Str ''Europe'', Num 20]] \<and>
   columns ex_regions_bar_view = [''year'', ''country'', ''coal_co2''] \<and>
   ''oil_co2'' \<notin> set (columns ex_regions_bar_view) \<and>
   ''gas_co2'' \<notin> set (columns ex_regions_bar_view) \<and>
   list_all (\<lambda>r. \<exists>k \<in> set continents_excl_world.
            r = [Num (of_int 1900), Str k,
                 column_sum ex_regions ''coal_co2'' (matching_rows ex_regions (of_int 1900) k)])
     (rows ex_regions_bar_view) \<and>
   distinct (map (\<lambda>r. cell_at (columns ex_regions_bar_view) r ''country'')
     (rows ex_regions_bar_view)) \<and>
   matching_rows ex_regions (of_int 1900) ''Europe'' \<noteq> [] \<and>
   list_ex (\<lambda>r. cell_at (columns ex_regions_bar_view) r ''country'' = Some (Str ''Europe''))
     (rows ex_regions_bar_view)"
proof -
  have h1: "''coal_co2'' \<in> set yaxis_co2_source_options" by code_simp
  have h2: "float_column ex_regions ''coal_co2''" by code_simp
  have h3: "co2_source_bar_pipeline ex_regions 1900 ''coal_co2'' = Inr ex_regions_bar_view"
    by code_simp
  have h4: "''oil_co2'' \<in> set yaxis_co2_source_options" "''gas_co2'' \<in> set yaxis_co2_source_options"
    "''Europe'' \<in> set continents_excl_world"
    by code_simp+
  have h5: "matching_rows ex_regions (of_int 1900) ''Europe'' \<noteq> []" by code_simp
  have h6: "rows ex_regions_bar_view
      = [[Num 1900, Str ''Asia'', Num 16], [Num 1900, Str ''Europe'', Num 20]]" by code_simp
  note t = bar_view_one_source[OF h1 h2 h3]
  from t have a: "columns ex_regions_bar_view = [''year'', ''country'', ''coal_co2'']" by blast
  from t h4 have b: "''oil_co2'' \<notin> set (columns ex_regions_bar_view)"
    "''gas_co2'' \<notin> set (columns ex_regions_bar_view)" by auto
  from t have c: "list_all (\<lambda>r. \<exists>k \<in> set continents_excl_world.
            r = [Num (of_int 1900), Str k,
                 column_sum ex_regions ''coal_co2'' (matching_rows ex_regions (of_int 1900) k)])
     (rows ex_regions_bar_view)" unfolding list_all_iff by blast
  from t have d: "distinct (map (\<lambda>r. cell_at (columns ex_regions_bar_view) r ''country'')
     (rows ex_regions_bar_view))" by blast
  from t h4(3) h5 have e: "list_ex (\<lambda>r. cell_at (columns ex_regions_bar_view) r ''country''
      = Some (Str ''Europe'')) (rows ex_regions_bar_view)" unfolding list_ex_iff by blast
  from h1 h2 h3 h5 h6 a b c d e show ?thesis by blast
qed

text \<open>
  C5 as it was stated, an aggregate of all three sub-quantities, fails: with
  \<^verbatim>\<open>coal_co2\<close> selected the view of the example has no \<^verbatim>\<open>oil_co2\<close> and no
  \<^verbatim>\<open>gas_co2\<close> column.
\<close>

theorem bar_view_all_sources_counterexample:
  "co2_source_bar_pipeline ex_clean 1850 ''coal_co2'' = Inr ex_bar_view \<and>
   \<not> has_all_sources ex_bar_view"
proof
  show "co2_source_bar_pipeline ex_clean 1850 ''coal_co2'' = Inr ex_bar_view" by code_simp
  show "\<not> has_all_sources ex_bar_view" by code_simp
qed

section \<open>The table under widget changes\<close>

text \<open>
  C8. After the cleaning step, evaluating any of the three views, for any widget
  values, and any sequence of widget changes leave the cleaned table, and every other
  frame there is, as it was: each pandas call of a view returns a new frame.
\<close>

theorem table_never_mutated:
  assumes "table s < length (objs s)"
  shows "snd (co2_pipeline_eval (table s) V c (objs s)) ! table s = objs s ! table s
       \<and> snd (co2_vs_gdp_scatterplot_pipeline_eval (table s) V (objs s)) ! table s
           = objs s ! table s
       \<and> snd (co2_source_bar_pipeline_eval (table s) V c' (objs s)) ! table s = objs s ! table s
       \<and> table (run es s) = table s
       \<and> objs (run es s) ! table (run es s) = objs s ! table s
       \<and> (\<forall>b < length (objs s). objs (run es s) ! b = objs s ! b)"
proof -
  note n = continues_nth[OF _ assms]
  from run_continues[of s es] have r: "continues (objs s) (objs (run es s))"
    and t: "table (run es s) = table s" by simp_all
  from r have "\<forall>b < length (objs s). objs (run es s) ! b = objs s ! b"
    by (simp add: continues_nth)
  with t assms n[OF co2_pipeline_eval_continues] n[OF scatterplot_pipeline_eval_continues]
    n[OF bar_pipeline_eval_continues]
  show ?thesis by simp
qed

theorem table_never_mutated_witness:
  "table ex_dashboard < length (objs ex_dashboard) \<and>
   clean_cell 0 [ex_raw] = (Inr (table ex_dashboard), objs ex_dashboard) \<and>
   objs ex_dashboard ! table ex_dashboard = ex_clean \<and>
   fst (co2_pipeline_eval 1 1850 ''co2'' [ex_raw, ex_clean]) = Inr 5 \<and>
   snd (co2_pipeline_eval 1 1850 ''co2'' [ex_raw, ex_clean]) ! 5 = ex_co2_view \<and>
   snd (co2_pipeline_eval (table ex_dashboard) 1850 ''co2'' (objs ex_dashboard)) ! 1 = ex_clean \<and>
   objs (run [Year_slider 2021, Yaxis_co2 ''co2_per_capita'', Yaxis_co2_source ''oil_co2'']
          ex_dashboard) ! 1 = ex_clean"
proof -
  have h: "table ex_dashboard < length (objs ex_dashboard)" by code_simp
  have c: "clean_cell 0 [ex_raw] = (Inr (table ex_dashboard), objs ex_dashboard)" by code_simp
  have o: "objs ex_dashboard ! table ex_dashboard = ex_clean" "table ex_dashboard = 1"
    by code_simp+
  have v: "fst (co2_pipeline_eval 1 1850 ''co2'' [ex_raw, ex_clean]) = Inr 5"
    "snd (co2_pipeline_eval 1 1850 ''co2'' [ex_raw, ex_clean]) ! 5 = ex_co2_view"
    by code_simp+
  from table_never_mutated[OF h, where V = 1850 and c = "''co2''" and c' = "''coal_co2''"
      and es = "[Year_slider 2021, Yaxis_co2 ''co2_per_capita'', Yaxis_co2_source ''oil_co2'']"]
    h c o v
  show ?thesis by simp
qed

end
